theory Spec2Isabelle
  imports Main "HOL-Library.AList"
begin

section \<open>Strings\<close>

text \<open>
  A JavaScript string is modelled as a \<^typ>\<open>string\<close>: the list of the bytes of its UTF-8
  form. Host names, rule strings, header names and serialised URLs are ASCII, where one
  byte is one character.
\<close>

definition startsWith :: "string \<Rightarrow> string \<Rightarrow> bool" where
  "startsWith s p = (take (length p) s = p)"

definition endsWith :: "string \<Rightarrow> string \<Rightarrow> bool" where
  "endsWith s t = (length t \<le> length s \<and> drop (length s - length t) s = t)"

text \<open>\<open>s.split(sep)\<close> for a separator of one character: never the empty list.\<close>

fun js_split :: "char \<Rightarrow> string \<Rightarrow> string list" where
  "js_split sep [] = [[]]"
| "js_split sep (c # cs) =
     (if c = sep then [] # js_split sep cs
      else (case js_split sep cs of
              [] \<Rightarrow> [[c]]
            | p # ps \<Rightarrow> (c # p) # ps))"

section \<open>Configuration (server.js, lines 12 to 16)\<close>

text \<open>
  \<open>MAX_BODY_MB\<close> is the result of \<open>parseInt\<close>: an integer, or NaN (\<open>None\<close>).
  The two rule lists are read once from the environment by \<open>loadList\<close>:
  \<^verbatim>\<open>(process.env.ALLOWLIST || '').split(',').filter(Boolean)\<close>.
\<close>

record config =
  MAX_BODY_MB :: "int option"
  ALLOWLIST :: "string list"
  BLOCKLIST :: "string list"
  ENABLE_REWRITE :: bool

definition loadList :: "string option \<Rightarrow> string list" where
  "loadList v =
     filter (\<lambda>r. r \<noteq> []) (js_split CHR '','' (case v of None \<Rightarrow> [] | Some s \<Rightarrow> s))"

section \<open>URL objects\<close>

text \<open>
  The fields of a WHATWG \<open>URL\<close> object that server.js reads. \<open>href\<close> is what
  \<open>toString()\<close> returns; \<open>searchParams\<close> is the list of name and value pairs of the
  query, and \<open>searchParams.get(name)\<close> is the first value under that name.

  The constructor \<open>new URL(input, base)\<close> belongs to the platform, not to the
  repository: every function that calls it takes it as the parameter \<open>URL\<close>, where
  \<open>None\<close> is the \<open>TypeError\<close> it throws on an input that does not parse.
\<close>

record url =
  href :: string
  protocol :: string
  hostname :: string
  origin :: string
  pathname :: string
  searchParams :: "(string \<times> string) list"

type_synonym URL_ctor = "string \<Rightarrow> string option \<Rightarrow> url option"

datatype error = TypeError

section \<open>Policy evaluator (server.js, lines 34 to 49)\<close>

definition matchesList :: "string \<Rightarrow> string list \<Rightarrow> bool" where
  "matchesList host list =
     (if host = [] then False
      else list_ex (\<lambda>rule.
             if startsWith rule ''*.'' then endsWith host (drop 1 rule)
             else host = rule) list)"

definition isAllowed :: "config \<Rightarrow> url \<Rightarrow> bool" where
  "isAllowed cfg urlObj =
     (let host = hostname urlObj in
      if BLOCKLIST cfg \<noteq> [] \<and> matchesList host (BLOCKLIST cfg) then False
      else if ALLOWLIST cfg \<noteq> [] \<and> \<not> matchesList host (ALLOWLIST cfg) then False
      else True)"

text \<open>
  The matching relation in the words of the specification: a host matches a rule when it
  equals the rule and the rule is not a wildcard, or the rule is \<open>*.suffix\<close> and the host
  ends with \<open>.suffix\<close>.
\<close>

definition spec_matches :: "string \<Rightarrow> string \<Rightarrow> bool" where
  "spec_matches h r =
     ((\<not> (\<exists>s. r = ''*.'' @ s) \<and> h = r) \<or>
      (\<exists>s p. r = ''*.'' @ s \<and> h = p @ ''.'' @ s))"

section \<open>Percent-encoding (the built-ins the URL codec calls)\<close>

text \<open>
  \<open>encodeURIComponent\<close> keeps the letters, the digits and \<open>- _ . ! ~ * ' ( )\<close>, and
  writes every other byte of the UTF-8 form as \<open>%XX\<close> with upper-case digits.
\<close>

definition uriUnreserved :: "char \<Rightarrow> bool" where
  "uriUnreserved c =
     (c \<in> set (''ABCDEFGHIJKLMNOPQRSTUVWXYZabcdefghijklmnopqrstuvwxyz0123456789-_.!~*()''
               @ [CHR 0x27]))"

definition hexDigit :: "nat \<Rightarrow> char" where
  "hexDigit n = ''0123456789ABCDEF'' ! n"

definition encodeByte :: "char \<Rightarrow> string" where
  "encodeByte c =
     (if uriUnreserved c then [c]
      else [CHR ''%'', hexDigit (of_char c div 16), hexDigit (of_char c mod 16)])"

definition encodeURIComponent :: "string \<Rightarrow> string" where
  "encodeURIComponent s = concat (map encodeByte s)"

definition hexValue :: "char \<Rightarrow> nat option" where
  "hexValue c =
     (let n = (of_char c :: nat) in
      if 48 \<le> n \<and> n \<le> 57 then Some (n - 48)
      else if 65 \<le> n \<and> n \<le> 70 then Some (n - 55)
      else if 97 \<le> n \<and> n \<le> 102 then Some (n - 87)
      else None)"

text \<open>
  \<open>decodeURIComponent\<close> throws a \<open>URIError\<close> (\<open>None\<close>) on a \<open>%\<close> that two
  hexadecimal digits do not follow, and when the decoded bytes are not well-formed UTF-8.
\<close>

fun unescape :: "string \<Rightarrow> string option" where
  "unescape [] = Some []"
| "unescape (c # cs) =
     (if c = CHR ''%'' then
        (case cs of
           h1 # h2 # rest \<Rightarrow>
             (case (hexValue h1, hexValue h2) of
                (Some a, Some b) \<Rightarrow> map_option ((#) (char_of (16 * a + b))) (unescape rest)
              | _ \<Rightarrow> None)
         | _ \<Rightarrow> None)
      else map_option ((#) c) (unescape cs))"

definition byte_in :: "nat \<Rightarrow> nat \<Rightarrow> char \<Rightarrow> bool" where
  "byte_in lo hi c = (lo \<le> of_char c \<and> of_char c \<le> hi)"

fun utf8_valid :: "string \<Rightarrow> bool" where
  "utf8_valid [] = True"
| "utf8_valid (b # bs) =
     (let n = (of_char b :: nat) in
      if n < 0x80 then utf8_valid bs
      else if 0xC2 \<le> n \<and> n \<le> 0xDF then
        (case bs of
           c1 # r \<Rightarrow> byte_in 0x80 0xBF c1 \<and> utf8_valid r
         | _ \<Rightarrow> False)
      else if 0xE0 \<le> n \<and> n \<le> 0xEF then
        (case bs of
           c1 # c2 # r \<Rightarrow>
             byte_in (if n = 0xE0 then 0xA0 else 0x80) (if n = 0xED then 0x9F else 0xBF) c1 \<and>
             byte_in 0x80 0xBF c2 \<and> utf8_valid r
         | _ \<Rightarrow> False)
      else if 0xF0 \<le> n \<and> n \<le> 0xF4 then
        (case bs of
           c1 # c2 # c3 # r \<Rightarrow>
             byte_in (if n = 0xF0 then 0x90 else 0x80) (if n = 0xF4 then 0x8F else 0xBF) c1 \<and>
             byte_in 0x80 0xBF c2 \<and> byte_in 0x80 0xBF c3 \<and> utf8_valid r
         | _ \<Rightarrow> False)
      else False)"

definition decodeURIComponent :: "string \<Rightarrow> string option" where
  "decodeURIComponent s =
     (case unescape s of
        None \<Rightarrow> None
      | Some t \<Rightarrow> if utf8_valid t then Some t else None)"

section \<open>URL codec (server.js, lines 51 to 62)\<close>

definition absoluteUrl :: "URL_ctor \<Rightarrow> url \<Rightarrow> string \<Rightarrow> string option" where
  "absoluteUrl URL base ref = map_option href (URL ref (Some (href base)))"

definition toProxyUrl :: "URL_ctor \<Rightarrow> string \<Rightarrow> error + string" where
  "toProxyUrl URL targetUrl =
     (case URL targetUrl None of
        None \<Rightarrow> Inl TypeError
      | Some u \<Rightarrow> Inr (''/proxy?url='' @ encodeURIComponent (href u)))"

text \<open>
  The decoding side is \<open>req.query.url\<close> (line 66), which Express computes with the \<open>qs\<close>
  package. \<open>req_query\<close> models it for a parameter with a plain name: the query is the text
  after the first \<open>?\<close>, its parts stand between \<open>&\<close>, a part splits at its first \<open>=\<close>,
  and \<open>qs_decode\<close> reads \<open>+\<close> as a space and decodes the escapes, keeping a text that
  does not decode as it is. A name that occurs twice makes an array, which is no string:
  \<open>None\<close> here, as for a name that does not occur.
\<close>

definition qs_decode :: "string \<Rightarrow> string" where
  "qs_decode str =
     (let strWithoutPlus = map (\<lambda>c. if c = CHR ''+'' then CHR '' '' else c) str in
      case decodeURIComponent strWithoutPlus of
        None \<Rightarrow> strWithoutPlus
      | Some t \<Rightarrow> t)"

definition query_of :: "string \<Rightarrow> string" where
  "query_of reqUrl = drop 1 (dropWhile (\<lambda>c. c \<noteq> CHR ''?'') reqUrl)"

definition qs_pair :: "string \<Rightarrow> string \<times> string" where
  "qs_pair part =
     (qs_decode (takeWhile (\<lambda>c. c \<noteq> CHR ''='') part),
      qs_decode (drop 1 (dropWhile (\<lambda>c. c \<noteq> CHR ''='') part)))"

definition req_query :: "string \<Rightarrow> string \<Rightarrow> string option" where
  "req_query name reqUrl =
     (case filter (\<lambda>kv. fst kv = name) (map qs_pair (js_split CHR ''&'' (query_of reqUrl))) of
        [kv] \<Rightarrow> Some (snd kv)
      | _ \<Rightarrow> None)"

text \<open>
  A property of the platform that some statements below ask for: the serialisation of a
  URL parses again (for the WHATWG constructor it does).
\<close>

definition serialisation_parses :: "URL_ctor \<Rightarrow> bool" where
  "serialisation_parses URL =
     (\<forall>input base u. URL input base = Some u \<longrightarrow> URL (href u) None \<noteq> None)"

section \<open>Headers\<close>

text \<open>
  Names of HTTP headers are ASCII, where \<open>toLowerCase\<close> acts on the letters \<open>A\<close> to \<open>Z\<close>.
\<close>

definition toLowerCase :: "string \<Rightarrow> string" where
  "toLowerCase s =
     map (\<lambda>c. if 65 \<le> (of_char c :: nat) \<and> (of_char c :: nat) \<le> 90
              then char_of ((of_char c :: nat) + 32) else c) s"

text \<open>
  The headers of the response under construction, as Node keeps them: under the name in
  lower case, the name as \<open>setHeader\<close> was given it and the value. Setting a name again
  replaces the entry.
\<close>

type_synonym headers_out = "(string \<times> string \<times> string) list"

definition setHeader :: "string \<Rightarrow> string \<Rightarrow> headers_out \<Rightarrow> headers_out" where
  "setHeader name v res = AList.update (toLowerCase name) (name, v) res"

text \<open>
  The headers of the upstream response are the pairs that iterating \<open>upstream.headers\<close>
  yields, in that order; \<open>headers.get(name)\<close> joins the values under the name with a comma
  and a space.
\<close>

fun join :: "string \<Rightarrow> string list \<Rightarrow> string" where
  "join sep [] = []"
| "join sep [x] = x"
| "join sep (x # y # ys) = x @ sep @ join sep (y # ys)"

definition headers_get :: "(string \<times> string) list \<Rightarrow> string \<Rightarrow> string option" where
  "headers_get hs name =
     (case map snd (filter (\<lambda>kv. toLowerCase (fst kv) = toLowerCase name) hs) of
        [] \<Rightarrow> None
      | v # vs \<Rightarrow> Some (join '', '' (v # vs)))"

text \<open>
  What iterating yields, from the header lines \<open>raw\<close> that the upstream server wrote
  (undici's \<open>Headers\<close>, after "sort and combine" of the Fetch Standard): the names in
  lower case and sorted by code unit, one pair for each name with the values of that name
  joined by a comma and a space; the values of \<open>set-cookie\<close> stay apart, one pair each.
\<close>

fun precedes :: "string \<Rightarrow> string \<Rightarrow> bool" where
  "precedes [] b = True"
| "precedes (x # a) [] = False"
| "precedes (x # a) (y # b) =
     ((of_char x :: nat) < of_char y \<or> (x = y \<and> precedes a b))"

fun insert_name :: "string \<Rightarrow> string list \<Rightarrow> string list" where
  "insert_name n [] = [n]"
| "insert_name n (m # ms) = (if precedes n m then n # m # ms else m # insert_name n ms)"

definition sort_names :: "string list \<Rightarrow> string list" where
  "sort_names names = foldr insert_name names []"

definition entries_of :: "(string \<times> string) list \<Rightarrow> string \<Rightarrow> (string \<times> string) list" where
  "entries_of raw name =
     (let values = map snd (filter (\<lambda>kv. toLowerCase (fst kv) = name) raw)
      in if name = ''set-cookie'' then map (Pair name) values
         else [(name, join '', '' values)])"

definition Headers_entries :: "(string \<times> string) list \<Rightarrow> (string \<times> string) list" where
  "Headers_entries raw =
     concat (map (entries_of raw) (remdups (sort_names (map (\<lambda>kv. toLowerCase (fst kv)) raw))))"

text \<open>\<open>res.get(name)\<close> and \<open>res.removeHeader(name)\<close>, on the headers of the response.\<close>

definition getHeader :: "headers_out \<Rightarrow> string \<Rightarrow> string option" where
  "getHeader res name = map_option snd (map_of res (toLowerCase name))"

definition removeHeader :: "string \<Rightarrow> headers_out \<Rightarrow> headers_out" where
  "removeHeader name res = AList.delete (toLowerCase name) res"

section \<open>Requests, upstream responses, responses\<close>

text \<open>
  Of the inbound request: its method, the value of \<open>req.query.url\<close> (\<open>None\<close> when the
  query has no such parameter; a parameter given twice or with brackets makes an array
  or an object, which this model leaves out), its headers under their names in lower
  case, and the chunks of its body in the order of arrival.

  A call of \<open>fetch\<close> is its URL, method, headers and body; \<open>redirect: 'manual'\<close> is the
  same in every call. Of the upstream response: its status, the pairs that iterating its
  headers yields, and its body. Of the response to the client: its status, the headers
  that the middleware, the handler and \<open>res.send\<close> set on it, and its body, which is a
  text that \<open>res.send\<close> writes, the upstream body piped into it, or nothing. (Express's
  own \<open>X-Powered-By\<close> and what Node adds on the wire, the date and the framing of its
  connection to the client, are left out.)
\<close>

record request =
  req_method :: string
  req_query_url :: "string option"
  req_headers :: "(string \<times> string) list"
  req_chunks :: "string list"

record fetch_call =
  fc_url :: string
  fc_method :: string
  fc_headers :: "(string \<times> string) list"
  fc_body :: "string option"

record upstream =
  up_status :: nat
  up_headers :: "(string \<times> string) list"
  up_body :: string

datatype payload = Sent string | Piped string | Ended

record response =
  res_status :: nat
  res_headers :: headers_out
  res_body :: payload

section \<open>Documents (cheerio)\<close>

datatype node = Element string "(string \<times> string) list" "node list" | Text string

text \<open>
  What the handler calls and the repository does not define: the \<open>URL\<close> constructor,
  undici's \<open>fetch\<close> (\<open>None\<close> when it throws), \<open>upstream.text()\<close>, and of cheerio the
  parser of a document (\<open>cheerio.load\<close>), the parser of a piece of markup given to
  \<open>prepend\<close> and \<open>append\<close>, and the serialiser (\<open>$.html()\<close>). Of Express, what its
  \<open>res.send\<close> calls: the ETag of a body (the application's \<open>etag fn\<close>; \<open>None\<close> when it gives
  none), the test of freshness (the package \<open>fresh\<close>, on the headers of the request and
  the ETag and Last-Modified of the response), and \<open>setCharset(type, 'utf-8')\<close>.
\<close>

record libs =
  new_URL :: URL_ctor
  fetch :: "fetch_call \<Rightarrow> upstream option"
  body_text :: "string \<Rightarrow> string"
  cheerio_load :: "string \<Rightarrow> node"
  cheerio_markup :: "string \<Rightarrow> node list"
  cheerio_html :: "node \<Rightarrow> string"
  etag :: "string \<Rightarrow> string option"
  fresh :: "(string \<times> string) list \<Rightarrow> string option \<Rightarrow> string option \<Rightarrow> bool"
  setCharset :: "string \<Rightarrow> string"

definition then_do :: "error + 'a \<Rightarrow> ('a \<Rightarrow> error + 'b) \<Rightarrow> error + 'b" where
  "then_do r f = (case r of Inl e \<Rightarrow> Inl e | Inr x \<Rightarrow> f x)"

text \<open>\<open>$(sel).prepend(markup)\<close> and \<open>$(sel).append(markup)\<close>, for a selector that is a tag name.\<close>

fun prepend :: "string \<Rightarrow> node list \<Rightarrow> node \<Rightarrow> node" where
  "prepend sel new (Text t) = Text t"
| "prepend sel new (Element tag attrs kids) =
     Element tag attrs ((if tag = sel then new else []) @ map (prepend sel new) kids)"

fun append_to :: "string \<Rightarrow> node list \<Rightarrow> node \<Rightarrow> node" where
  "append_to sel new (Text t) = Text t"
| "append_to sel new (Element tag attrs kids) =
     Element tag attrs (map (append_to sel new) kids @ (if tag = sel then new else []))"

text \<open>
  \<open>$(sel).each(callback)\<close>: the callback runs on every element that the selector matches,
  in document order, and changes the attributes of that element; an exception of the callback
  ends the walk.
\<close>

fun each :: "(string \<Rightarrow> (string \<times> string) list \<Rightarrow> bool) \<Rightarrow>
             ((string \<times> string) list \<Rightarrow> error + (string \<times> string) list) \<Rightarrow> node \<Rightarrow> error + node"
  and each_list :: "(string \<Rightarrow> (string \<times> string) list \<Rightarrow> bool) \<Rightarrow>
             ((string \<times> string) list \<Rightarrow> error + (string \<times> string) list) \<Rightarrow> node list
             \<Rightarrow> error + node list" where
  "each sel f (Text t) = Inr (Text t)"
| "each sel f (Element tag attrs kids) =
     then_do (if sel tag attrs then f attrs else Inr attrs) (\<lambda>attrs'.
     then_do (each_list sel f kids) (\<lambda>kids'.
     Inr (Element tag attrs' kids')))"
| "each_list sel f [] = Inr []"
| "each_list sel f (n # ns) =
     then_do (each sel f n) (\<lambda>n'.
     then_do (each_list sel f ns) (\<lambda>ns'.
     Inr (n' # ns')))"

section \<open>CORS middleware (server.js, lines 22 to 28)\<close>

definition corsHeaders :: headers_out where
  "corsHeaders =
     setHeader ''Access-Control-Allow-Headers'' ''Content-Type,Range''
       (setHeader ''Access-Control-Allow-Methods'' ''GET,POST,HEAD,OPTIONS''
         (setHeader ''Access-Control-Allow-Origin'' ''*'' []))"

section \<open>Express: res.send of a string (express, lib/response.js)\<close>

text \<open>\<open>String(n)\<close> of a length.\<close>

function decimal :: "nat \<Rightarrow> string" where
  "decimal n = (if n < 10 then [char_of (48 + n)]
                else decimal (n div 10) @ [char_of (48 + n mod 10)])"
  by pat_completeness auto
termination by (relation "measure id") auto

declare decimal.simps [simp del]

text \<open>A header that is absent or empty is false in a condition.\<close>

definition present :: "string option \<Rightarrow> bool" where
  "present v = (v \<noteq> None \<and> v \<noteq> Some [])"

text \<open>
  \<open>req.fresh\<close> (express, lib/request.js): only a GET or a HEAD request, and only a response
  with a status from 200 to 299 or 304, can be fresh.
\<close>

definition req_fresh :: "libs \<Rightarrow> request \<Rightarrow> nat \<Rightarrow> headers_out \<Rightarrow> bool" where
  "req_fresh L req status res =
     (if req_method req \<noteq> ''GET'' \<and> req_method req \<noteq> ''HEAD'' then False
      else if (200 \<le> status \<and> status < 300) \<or> status = 304 then
        fresh L (req_headers req) (getHeader res ''ETag'') (getHeader res ''Last-Modified'')
      else False)"

text \<open>
  \<open>res.send(chunk)\<close> for a string, with the status and the headers set so far. In the
  order of the library: the Content-Type is \<open>text/html\<close> if there is none, and its charset
  is set to \<open>utf-8\<close>; the Content-Length is the number of bytes of the chunk; an ETag is
  made unless the response has one; a fresh request is answered with 304; a response with
  status 204 or 304 loses Content-Type, Content-Length, Transfer-Encoding and its body,
  one with status 205 has Content-Length 0 and no body; a HEAD request is given no body.
\<close>

definition res_send :: "libs \<Rightarrow> request \<Rightarrow> nat \<Rightarrow> headers_out \<Rightarrow> string \<Rightarrow> response" where
  "res_send L req status res chunk =
     (let typed = (if present (getHeader res ''Content-Type'') then res
                   else setHeader ''Content-Type'' ''text/html; charset=utf-8'' res);
          charset = (case getHeader typed ''Content-Type'' of
                       None \<Rightarrow> typed
                     | Some type \<Rightarrow> setHeader ''Content-Type'' (setCharset L type) typed);
          generateETag = (\<not> present (getHeader charset ''ETag''));
          sized = setHeader ''Content-Length'' (decimal (length chunk)) charset;
          etagged = (if generateETag then
                       (case etag L chunk of
                          None \<Rightarrow> sized
                        | Some e \<Rightarrow> setHeader ''ETag'' e sized)
                     else sized);
          statusCode = (if req_fresh L req status etagged then 304 else status);
          stripped = (if statusCode = 204 \<or> statusCode = 304 then
                        removeHeader ''Transfer-Encoding''
                          (removeHeader ''Content-Length''
                            (removeHeader ''Content-Type'' etagged))
                      else etagged);
          reset = (if statusCode = 205 then
                     removeHeader ''Transfer-Encoding''
                       (setHeader ''Content-Length'' ''0'' stripped)
                   else stripped);
          written = (if statusCode = 204 \<or> statusCode = 304 \<or> statusCode = 205 then []
                     else chunk)
      in \<lparr>res_status = statusCode, res_headers = reset,
          res_body = (if req_method req = ''HEAD'' then Ended else Sent written)\<rparr>)"

section \<open>The /proxy handler (server.js, lines 65 to 217)\<close>

text \<open>
  An early answer, \<open>res.status(code).send(text)\<close>, as the handler makes the call: the
  status, the headers set so far and the text. What Express makes of the call is
  \<open>res_send\<close>, which leaves a status from 400 on as it is and adds a Content-Type, a
  Content-Length and, when there is one for the text, an ETag.
\<close>

definition reply :: "nat \<Rightarrow> string \<Rightarrow> headers_out \<Rightarrow> response" where
  "reply code text res = \<lparr>res_status = code, res_headers = res, res_body = Sent text\<rparr>"

text \<open>Lines 85 to 92: the headers of the outbound request.\<close>

definition requestHeaders :: "(string \<times> string) list \<Rightarrow> (string \<times> string) list" where
  "requestHeaders hs =
     (let headers = AList.delete ''accept-encoding''
                      (AList.delete ''referer''
                        (AList.delete ''origin''
                          (AList.delete ''host'' hs)))
      in AList.update ''user-agent''
           (case map_of headers ''user-agent'' of
              None \<Rightarrow> ''Mozilla/5.0 (ProxyRender/1.0)''
            | Some ua \<Rightarrow> if ua = [] then ''Mozilla/5.0 (ProxyRender/1.0)'' else ua)
           headers)"

text \<open>
  Lines 99 to 108: the inbound body is read chunk by chunk; \<open>None\<close> is the early return
  with status 413. A comparison with NaN is false.
\<close>

definition tooLarge :: "config \<Rightarrow> int \<Rightarrow> bool" where
  "tooLarge cfg bodySize =
     (case MAX_BODY_MB cfg of None \<Rightarrow> False | Some mb \<Rightarrow> bodySize > mb * 1024 * 1024)"

fun readBody :: "config \<Rightarrow> string list \<Rightarrow> int \<Rightarrow> string list \<Rightarrow> string option" where
  "readBody cfg chunks bodySize [] = Some (concat chunks)"
| "readBody cfg chunks bodySize (chunk # rest) =
     (let bodySize' = bodySize + int (length chunk) in
      if tooLarge cfg bodySize' then None
      else readBody cfg (chunks @ [chunk]) bodySize' rest)"

text \<open>Lines 127 to 137: the header relay loop.\<close>

definition hopByHop :: "string list" where
  "hopByHop =
     [''connection'', ''keep-alive'', ''proxy-authenticate'', ''proxy-authorization'',
      ''te'', ''trailers'', ''transfer-encoding'', ''upgrade'']"

definition framingHeaders :: "string list" where
  "framingHeaders =
     [''x-frame-options'', ''content-security-policy'',
      ''content-security-policy-report-only'']"

fun relayHeaders :: "(string \<times> string) list \<Rightarrow> headers_out \<Rightarrow> headers_out" where
  "relayHeaders [] res = res"
| "relayHeaders ((k, v) # rest) res =
     (if toLowerCase k \<in> set hopByHop then relayHeaders rest res
      else if toLowerCase k \<in> set framingHeaders then relayHeaders rest res
      else relayHeaders rest (setHeader k v res))"

text \<open>Lines 139 to 144: the Location of a redirect.\<close>

definition rewriteLocation ::
  "URL_ctor \<Rightarrow> url \<Rightarrow> upstream \<Rightarrow> headers_out \<Rightarrow> error + headers_out" where
  "rewriteLocation URL targetUrl up res =
     (case headers_get (up_headers up) ''location'' of
        None \<Rightarrow> Inr res
      | Some location \<Rightarrow>
          if location = [] then Inr res
          else (case absoluteUrl URL targetUrl location of
                  None \<Rightarrow> Inr res
                | Some absUrl \<Rightarrow>
                    if absUrl = [] then Inr res
                    else then_do (toProxyUrl URL absUrl) (\<lambda>p.
                         Inr (setHeader ''Location'' p res))))"

text \<open>Lines 146 to 153: the choice between the two paths.\<close>

datatype path = StreamingPath | RewritePath

definition selectPath :: "config \<Rightarrow> upstream \<Rightarrow> path" where
  "selectPath cfg up =
     (let contentType = (case headers_get (up_headers up) ''content-type'' of
                           None \<Rightarrow> []
                         | Some ct \<Rightarrow> ct);
          isHtml = startsWith contentType ''text/html''
      in if \<not> isHtml \<or> \<not> ENABLE_REWRITE cfg then StreamingPath else RewritePath)"

text \<open>Lines 156 to 214: the rewriting of an HTML document.\<close>

definition rewriteAttr ::
  "URL_ctor \<Rightarrow> url \<Rightarrow> string \<Rightarrow> (string \<times> string) list \<Rightarrow> error + (string \<times> string) list" where
  "rewriteAttr URL targetUrl name attrs =
     (case map_of attrs name of
        None \<Rightarrow> Inr attrs
      | Some v \<Rightarrow>
          (case absoluteUrl URL targetUrl v of
             None \<Rightarrow> Inr attrs
           | Some absUrl \<Rightarrow>
               if absUrl = [] then Inr attrs
               else then_do (toProxyUrl URL absUrl) (\<lambda>p.
                    Inr (AList.update name p attrs))))"

definition rewriteResourceAttr ::
  "URL_ctor \<Rightarrow> url \<Rightarrow> string \<Rightarrow> (string \<times> string) list \<Rightarrow> error + (string \<times> string) list" where
  "rewriteResourceAttr URL targetUrl name attrs =
     (case map_of attrs name of
        None \<Rightarrow> Inr attrs
      | Some val \<Rightarrow> if val = [] then Inr attrs else rewriteAttr URL targetUrl name attrs)"

definition hasAttr :: "string \<Rightarrow> string \<Rightarrow> string \<Rightarrow> (string \<times> string) list \<Rightarrow> bool" where
  "hasAttr tag name t attrs = (t = tag \<and> map_of attrs name \<noteq> None)"

definition isResource :: "string \<Rightarrow> (string \<times> string) list \<Rightarrow> bool" where
  "isResource t attrs =
     (t \<in> set [''img'', ''script'', ''link'', ''source'', ''video'', ''audio''])"

definition navScript :: string where
  \<open>navScript = concat
    [''\<newline>'',
     ''    <script>\<newline>'',
     ''    (function(){\<newline>'',
     ''      const toProxy = u => '/proxy?url=' + encodeURIComponent(new URL(u, document.baseURI).toString());\<newline>'',
     ''      document.addEventListener('click', function(e){\<newline>'',
     ''        const a = e.target.closest('a[href]');\<newline>'',
     ''        if (a && !a.target) {\<newline>'',
     ''          e.preventDefault();\<newline>'',
     ''          location.href = toProxy(a.href);\<newline>'',
     ''        }\<newline>'',
     ''      }, true);\<newline>'',
     ''      // Intercept fetch/XHR navigations lightly (best effort)\<newline>'',
     ''      const origFetch = window.fetch;\<newline>'',
     ''      window.fetch = function(input, init){\<newline>'',
     ''        try {\<newline>'',
     ''          const url = typeof input === 'string' ? input : input.url;\<newline>'',
     ''          const abs = new URL(url, document.baseURI).toString();\<newline>'',
     ''          return origFetch(toProxy(abs), init);\<newline>'',
     ''        } catch {\<newline>'',
     ''          return origFetch(input, init);\<newline>'',
     ''        }\<newline>'',
     ''      };\<newline>'',
     ''    })();\<newline>'',
     ''    </script>\<newline>'',
     ''  '']\<close>

definition rewriteDocument :: "URL_ctor \<Rightarrow> url \<Rightarrow> node \<Rightarrow> error + node" where
  "rewriteDocument URL targetUrl doc =
     then_do (each (hasAttr ''a'' ''href'') (rewriteAttr URL targetUrl ''href'') doc)
       (\<lambda>links.
     then_do (each isResource (rewriteResourceAttr URL targetUrl ''src'') links)
       (\<lambda>srcs.
     then_do (each isResource (rewriteResourceAttr URL targetUrl ''href'') srcs)
       (\<lambda>resources.
     each (hasAttr ''form'' ''action'') (rewriteAttr URL targetUrl ''action'') resources)))"

definition rewriteHtml :: "libs \<Rightarrow> url \<Rightarrow> string \<Rightarrow> error + string" where
  \<open>rewriteHtml L targetUrl htmlText =
     (let doc = cheerio_load L htmlText;
          based = prepend ''head''
                    (cheerio_markup L (''<base href="'' @ href targetUrl @ ''">'')) doc
      in then_do (rewriteDocument (new_URL L) targetUrl based) (\<lambda>rewritten.
         Inr (cheerio_html L (append_to ''head'' (cheerio_markup L navScript) rewritten))))\<close>

text \<open>
  Lines 123 to 216: the response to the client, from the upstream response. The
  Streaming Path pipes the upstream body into the response, whose status and headers are
  the ones set by then. The Rewrite Path ends with \<open>res.send(out)\<close>: the response is what
  Express makes of it.
\<close>

definition respond ::
  "config \<Rightarrow> libs \<Rightarrow> request \<Rightarrow> url \<Rightarrow> upstream \<Rightarrow> headers_out \<Rightarrow> error + response" where
  "respond cfg L req targetUrl up res =
     then_do (rewriteLocation (new_URL L) targetUrl up (relayHeaders (up_headers up) res))
       (\<lambda>relayed.
     case selectPath cfg up of
       StreamingPath \<Rightarrow>
         Inr \<lparr>res_status = up_status up, res_headers = relayed,
              res_body = Piped (up_body up)\<rparr>
     | RewritePath \<Rightarrow>
         then_do (rewriteHtml L targetUrl (body_text L (up_body up))) (\<lambda>out.
         Inr (res_send L req (up_status up)
                (setHeader ''content-type'' ''text/html; charset=utf-8'' relayed) out)))"

text \<open>
  The handler gives the call of \<open>fetch\<close> that it made, if any, and the response; \<open>Inl\<close> is
  an exception that nothing catches.
\<close>

definition proxy ::
  "config \<Rightarrow> libs \<Rightarrow> request \<Rightarrow> headers_out \<Rightarrow> fetch_call option \<times> (error + response)" where
  "proxy cfg L req res =
     (case req_query_url req of
        None \<Rightarrow> (None, Inr (reply 400 ''Missing ?url='' res))
      | Some target \<Rightarrow>
          if target = [] then (None, Inr (reply 400 ''Missing ?url='' res))
          else (case new_URL L target None of
             None \<Rightarrow> (None, Inr (reply 400 ''Invalid URL'' res))
           | Some targetUrl \<Rightarrow>
               if protocol targetUrl \<notin> set [''http:'', ''https:''] then
                 (None, Inr (reply 400 ''Only http/https are supported'' res))
               else if \<not> isAllowed cfg targetUrl then
                 (None, Inr (reply 403 ''Blocked by policy'' res))
               else
                 (case (if req_method req \<noteq> ''GET'' \<and> req_method req \<noteq> ''HEAD''
                        then map_option Some (readBody cfg [] 0 (req_chunks req))
                        else Some None) of
                    None \<Rightarrow> (None, Inr (reply 413 ''Payload too large'' res))
                  | Some body \<Rightarrow>
                      (let call = \<lparr>fc_url = href targetUrl, fc_method = req_method req,
                                   fc_headers = requestHeaders (req_headers req),
                                   fc_body = body\<rparr>
                       in case fetch L call of
                            None \<Rightarrow> (Some call, Inr (reply 502 ''Upstream fetch failed'' res))
                          | Some up \<Rightarrow> (Some call, respond cfg L req targetUrl up res)))))"

text \<open>
  A request for \<open>/proxy\<close> passes the CORS middleware first. (The logger and the static
  files of lines 19 and 31 do not touch such a request, provided that \<open>public/proxy\<close> is no
  file.)
\<close>

definition app :: "config \<Rightarrow> libs \<Rightarrow> request \<Rightarrow> fetch_call option \<times> (error + response)" where
  "app cfg L req =
     (if req_method req = ''OPTIONS'' then
        (None, Inr \<lparr>res_status = 200, res_headers = corsHeaders, res_body = Ended\<rparr>)
      else proxy cfg L req corsHeaders)"

section \<open>The WebSocket bridge (server.js, lines 228 to 243)\<close>

datatype upgrade_result = Destroyed | ProxyWs string

definition upgrade :: "config \<Rightarrow> URL_ctor \<Rightarrow> string \<Rightarrow> upgrade_result" where
  "upgrade cfg URL reqUrl =
     (case URL reqUrl (Some ''http://localhost'') of
        None \<Rightarrow> Destroyed
      | Some url \<Rightarrow>
          if pathname url \<noteq> ''/ws'' then Destroyed
          else (case map_of (searchParams url) ''url'' of
             None \<Rightarrow> Destroyed
           | Some target \<Rightarrow>
               if target = [] then Destroyed
               else (case URL target None of
                  None \<Rightarrow> Destroyed
                | Some targetUrl \<Rightarrow>
                    if \<not> isAllowed cfg targetUrl then Destroyed
                    else ProxyWs (origin targetUrl))))"

text \<open>
  A response is \<open>clean\<close> when none of its headers, by the name it was set with, is a
  hop-by-hop or a framing header.
\<close>

definition clean :: "headers_out \<Rightarrow> bool" where
  "clean res = (\<forall>e \<in> set res. toLowerCase (fst (snd e)) \<notin> set (hopByHop @ framingHeaders))"

section \<open>What the specification asks of the rewriting\<close>

text \<open>
  In the words of the specification: an attribute whose value fails URL resolution is
  never modified. \<open>attr_kept\<close> relates an attribute of the upstream document to the
  attribute at the same place in the rewritten one: the name is the same, and so is the
  value when it does not resolve. \<open>unresolved_kept\<close> asks it of every attribute of every
  element, the two documents having the same shape.
\<close>

definition attr_kept :: "URL_ctor \<Rightarrow> url \<Rightarrow> string \<times> string \<Rightarrow> string \<times> string \<Rightarrow> bool" where
  "attr_kept URL targetUrl a b =
     (fst b = fst a \<and> (absoluteUrl URL targetUrl (snd a) = None \<longrightarrow> snd b = snd a))"

fun unresolved_kept :: "URL_ctor \<Rightarrow> url \<Rightarrow> node \<Rightarrow> node \<Rightarrow> bool" where
  "unresolved_kept URL targetUrl (Text a) (Text b) = (b = a)"
| "unresolved_kept URL targetUrl (Element tag attrs kids) (Element tag' attrs' kids') =
     (tag' = tag \<and> list_all2 (attr_kept URL targetUrl) attrs attrs' \<and>
      list_all2 (unresolved_kept URL targetUrl) kids kids')"
| "unresolved_kept URL targetUrl (Text a) (Element tag' attrs' kids') = False"
| "unresolved_kept URL targetUrl (Element tag attrs kids) (Text b) = False"

section \<open>Sample values of the platform\<close>

text \<open>
  The values of \<open>new URL(input, base)\<close> at the inputs of the examples in this theory, as
  the WHATWG URL Standard gives them (\<open>None\<close>: it throws). The table is used in examples
  only; every general statement holds for any constructor.
\<close>

definition mkUrl ::
  "string \<Rightarrow> string \<Rightarrow> string \<Rightarrow> string \<Rightarrow> string \<Rightarrow> (string \<times> string) list \<Rightarrow> url" where
  "mkUrl h p hn orig pn sp =
     \<lparr>href = h, protocol = p, hostname = hn, origin = orig, pathname = pn, searchParams = sp\<rparr>"

definition whatwg_sample :: URL_ctor where
  "whatwg_sample input base =
     (case map_of
        [((''http://example.com'', None),
            Some (mkUrl ''http://example.com/'' ''http:'' ''example.com''
                    ''http://example.com'' ''/'' [])),
         ((''http://example.com/'', None),
            Some (mkUrl ''http://example.com/'' ''http:'' ''example.com''
                    ''http://example.com'' ''/'' [])),
         ((''http://example.com/index.html'', None),
            Some (mkUrl ''http://example.com/index.html'' ''http:'' ''example.com''
                    ''http://example.com'' ''/index.html'' [])),
         ((''/new'', Some ''http://example.com/index.html''),
            Some (mkUrl ''http://example.com/new'' ''http:'' ''example.com''
                    ''http://example.com'' ''/new'' [])),
         ((''http://example.com/new'', None),
            Some (mkUrl ''http://example.com/new'' ''http:'' ''example.com''
                    ''http://example.com'' ''/new'' [])),
         ((''http://example.com/a?q=x&r=y%20z'', None),
            Some (mkUrl ''http://example.com/a?q=x&r=y%20z'' ''http:'' ''example.com''
                    ''http://example.com'' ''/a'' [(''q'', ''x''), (''r'', ''y z'')])),
         ((''http://'', Some ''http://example.com/index.html''), None),
         ((''http://evil.com/'', Some ''http://example.com/index.html''),
            Some (mkUrl ''http://evil.com/'' ''http:'' ''evil.com''
                    ''http://evil.com'' ''/'' [])),
         ((''http://evil.com/'', None),
            Some (mkUrl ''http://evil.com/'' ''http:'' ''evil.com''
                    ''http://evil.com'' ''/'' [])),
         ((''javascript:void(0)'', Some ''http://example.com/index.html''),
            Some (mkUrl ''javascript:void(0)'' ''javascript:'' [] ''null'' ''void(0)'' [])),
         ((''javascript:void(0)'', None),
            Some (mkUrl ''javascript:void(0)'' ''javascript:'' [] ''null'' ''void(0)'' [])),
         ((''ftp://files.example.com/pub'', None),
            Some (mkUrl ''ftp://files.example.com/pub'' ''ftp:'' ''files.example.com''
                    ''ftp://files.example.com'' ''/pub'' [])),
         ((''/ws?url=ftp%3A%2F%2Ffiles.example.com%2Fpub'', Some ''http://localhost''),
            Some (mkUrl ''http://localhost/ws?url=ftp%3A%2F%2Ffiles.example.com%2Fpub''
                    ''http:'' ''localhost'' ''http://localhost'' ''/ws''
                    [(''url'', ''ftp://files.example.com/pub'')])),
         ((''http://localhost/ws?url=ftp%3A%2F%2Ffiles.example.com%2Fpub'', None),
            Some (mkUrl ''http://localhost/ws?url=ftp%3A%2F%2Ffiles.example.com%2Fpub''
                    ''http:'' ''localhost'' ''http://localhost'' ''/ws''
                    [(''url'', ''ftp://files.example.com/pub'')]))]
        (input, base) of
        None \<Rightarrow> None
      | Some u \<Rightarrow> u)"

text \<open>
  The platform of the examples: the sample constructor, a \<open>fetch\<close> that answers every
  call with \<open>up\<close>, a placeholder for cheerio, which no example reaches, and
  placeholders for what \<open>res.send\<close> calls, on which no example depends.
\<close>

definition sample_libs :: "upstream option \<Rightarrow> libs" where
  "sample_libs up =
     \<lparr>new_URL = whatwg_sample, fetch = (\<lambda>call. up), body_text = (\<lambda>b. b),
      cheerio_load = (\<lambda>s. Text s), cheerio_markup = (\<lambda>s. [Text s]),
      cheerio_html = (\<lambda>n. []), etag = (\<lambda>chunk. None), fresh = (\<lambda>h e m. False),
      setCharset = (\<lambda>type. type)\<rparr>"

definition sample_target :: url where
  "sample_target =
     mkUrl ''http://example.com/index.html'' ''http:'' ''example.com''
       ''http://example.com'' ''/index.html'' []"

definition sample_request :: request where
  "sample_request =
     \<lparr>req_method = ''GET'', req_query_url = Some ''http://example.com/index.html'',
      req_headers = [], req_chunks = []\<rparr>"

definition sample_config :: config where
  "sample_config =
     \<lparr>MAX_BODY_MB = Some 64, ALLOWLIST = [], BLOCKLIST = loadList (Some ''evil.com''),
      ENABLE_REWRITE = True\<rparr>"

section \<open>Facts about strings and rule lists\<close>

lemma startsWith_iff: "startsWith s p \<longleftrightarrow> (\<exists>t. s = p @ t)"
proof
  assume "startsWith s p"
  then have "s = p @ drop (length p) s"
    unfolding startsWith_def by (metis append_take_drop_id)
  then show "\<exists>t. s = p @ t" ..
next
  assume "\<exists>t. s = p @ t"
  then show "startsWith s p" unfolding startsWith_def by auto
qed

lemma endsWith_iff: "endsWith s t \<longleftrightarrow> (\<exists>p. s = p @ t)"
proof
  assume e: "endsWith s t"
  then have "s = take (length s - length t) s @ t"
    unfolding endsWith_def by (metis append_take_drop_id)
  then show "\<exists>p. s = p @ t" ..
next
  assume "\<exists>p. s = p @ t"
  then show "endsWith s t" unfolding endsWith_def by auto
qed

lemma loadList_no_empty_rule: "[] \<notin> set (loadList v)"
  by (simp add: loadList_def)

lemma rule_closure_spec:
  "(if startsWith r ''*.'' then endsWith h (drop 1 r) else h = r) \<longleftrightarrow> spec_matches h r"
proof (cases "startsWith r ''*.''")
  case True
  then obtain s where r: "r = ''*.'' @ s" by (auto simp: startsWith_iff)
  then have "drop 1 r = ''.'' @ s" by simp
  with True r show ?thesis
    by (auto simp: spec_matches_def endsWith_iff)
next
  case False
  then have "\<not> (\<exists>s. r = ''*.'' @ s)" by (simp add: startsWith_iff)
  with False show ?thesis by (simp add: spec_matches_def)
qed

lemma spec_matches_empty_host: "r \<noteq> [] \<Longrightarrow> \<not> spec_matches [] r"
  by (auto simp: spec_matches_def)

lemma matchesList_spec:
  assumes "[] \<notin> set list"
  shows "matchesList h list \<longleftrightarrow> (\<exists>r \<in> set list. spec_matches h r)"
proof (cases "h = []")
  case True
  with assms have "\<forall>r \<in> set list. \<not> spec_matches h r"
    using spec_matches_empty_host by metis
  with True show ?thesis by (simp add: matchesList_def)
next
  case False
  then show ?thesis
    by (simp add: matchesList_def list_ex_iff rule_closure_spec)
qed

section \<open>The policy decision\<close>

text \<open>
  C1. With the rule lists as \<open>loadList\<close> reads them, \<open>isAllowed\<close> rejects a host that
  matches a block-rule; otherwise it rejects when the allow-list is not empty and the
  host matches none of its rules; otherwise it accepts. So a blocked host is rejected
  even when an allow-rule matches it too, and with an empty allow-list every host that
  is not blocked is accepted.
\<close>

theorem isAllowed_decision:
  fixes cfg :: config and u :: url
  assumes c: "c = cfg\<lparr>ALLOWLIST := loadList a, BLOCKLIST := loadList b\<rparr>"
  shows "(isAllowed c u =
           (if (\<exists>r \<in> set (BLOCKLIST c). spec_matches (hostname u) r) then False
            else if ALLOWLIST c \<noteq> [] \<and>
                    \<not> (\<exists>r \<in> set (ALLOWLIST c). spec_matches (hostname u) r) then False
            else True)) \<and>
         ((\<exists>r \<in> set (BLOCKLIST c). spec_matches (hostname u) r) \<and>
          (\<exists>r \<in> set (ALLOWLIST c). spec_matches (hostname u) r) \<longrightarrow> \<not> isAllowed c u) \<and>
         (ALLOWLIST c = [] \<and> \<not> (\<exists>r \<in> set (BLOCKLIST c). spec_matches (hostname u) r)
            \<longrightarrow> isAllowed c u)"
proof -
  have b: "matchesList (hostname u) (BLOCKLIST c)
             = (\<exists>r \<in> set (BLOCKLIST c). spec_matches (hostname u) r)"
    by (rule matchesList_spec) (simp add: c loadList_no_empty_rule)
  have l: "matchesList (hostname u) (ALLOWLIST c)
             = (\<exists>r \<in> set (ALLOWLIST c). spec_matches (hostname u) r)"
    by (rule matchesList_spec) (simp add: c loadList_no_empty_rule)
  have eq: "isAllowed c u =
           (if (\<exists>r \<in> set (BLOCKLIST c). spec_matches (hostname u) r) then False
            else if ALLOWLIST c \<noteq> [] \<and>
                    \<not> (\<exists>r \<in> set (ALLOWLIST c). spec_matches (hostname u) r) then False
            else True)"
    unfolding isAllowed_def Let_def b l by auto
  then show ?thesis by simp
qed

text \<open>
  At \<open>BLOCKLIST=bad.example.com\<close> and \<open>ALLOWLIST=*.example.com\<close>, the host
  \<open>bad.example.com\<close> matches a rule of each list and is rejected.
\<close>

theorem isAllowed_decision_witness:
  "\<not> isAllowed \<lparr>MAX_BODY_MB = Some 64, ALLOWLIST = loadList (Some ''*.example.com''),
                 BLOCKLIST = loadList (Some ''bad.example.com''), ENABLE_REWRITE = True\<rparr>
               \<lparr>href = ''http://bad.example.com/'', protocol = ''http:'',
                hostname = ''bad.example.com'', origin = ''http://bad.example.com'',
                pathname = ''/'', searchParams = []\<rparr>"
proof -
  let ?cfg = "\<lparr>MAX_BODY_MB = Some 64, ALLOWLIST = [], BLOCKLIST = [], ENABLE_REWRITE = True\<rparr>"
  let ?c = "\<lparr>MAX_BODY_MB = Some 64, ALLOWLIST = loadList (Some ''*.example.com''),
             BLOCKLIST = loadList (Some ''bad.example.com''), ENABLE_REWRITE = True\<rparr>"
  let ?u = "\<lparr>href = ''http://bad.example.com/'', protocol = ''http:'',
             hostname = ''bad.example.com'', origin = ''http://bad.example.com'',
             pathname = ''/'', searchParams = []\<rparr>"
  have c: "?c = ?cfg\<lparr>ALLOWLIST := loadList (Some ''*.example.com''),
                        BLOCKLIST := loadList (Some ''bad.example.com'')\<rparr>"
    by simp
  have blocked: "\<exists>r \<in> set (BLOCKLIST ?c). spec_matches (hostname ?u) r"
    by (simp add: loadList_def spec_matches_def)
  have "spec_matches ''bad.example.com'' ''*.example.com''"
    unfolding spec_matches_def by (intro disjI2 exI [of _ "''example.com''"] exI [of _ "''bad''"]) simp
  then have listed: "\<exists>r \<in> set (ALLOWLIST ?c). spec_matches (hostname ?u) r"
    by (simp add: loadList_def)
  from isAllowed_decision [OF c, of ?u] blocked listed show ?thesis by blast
qed

section \<open>Rule matching\<close>

text \<open>
  C2. A host \<open>h\<close> matches a rule \<open>r\<close> exactly when \<open>r\<close> is not a wildcard and \<open>h = r\<close>,
  or \<open>r\<close> is \<open>*.suffix\<close> and \<open>h\<close> ends with \<open>.suffix\<close>: for every host and every rule
  but the empty host with the empty rule, and no loaded list has an empty rule. A list
  matches when one of its rules does. \<open>*.example.com\<close> matches \<open>sub.example.com\<close>, and
  neither \<open>example.com\<close> nor \<open>evilexample.com\<close>.
\<close>

theorem matchesList_rule:
  "(h \<noteq> [] \<or> r \<noteq> [] \<longrightarrow> matchesList h [r] = spec_matches h r) \<and>
   [] \<notin> set (loadList v) \<and>
   matchesList h (loadList v) = (\<exists>r \<in> set (loadList v). spec_matches h r) \<and>
   matchesList ''sub.example.com'' [''*.example.com''] \<and>
   \<not> matchesList ''example.com'' [''*.example.com''] \<and>
   \<not> matchesList ''evilexample.com'' [''*.example.com'']"
proof (intro conjI impI)
  assume "h \<noteq> [] \<or> r \<noteq> []"
  then show "matchesList h [r] = spec_matches h r"
  proof
    assume "h \<noteq> []"
    then show ?thesis by (simp add: matchesList_def rule_closure_spec)
  next
    assume "r \<noteq> []"
    then have "[] \<notin> set [r]" by simp
    then show ?thesis by (simp add: matchesList_spec)
  qed
next
  show "[] \<notin> set (loadList v)" by (rule loadList_no_empty_rule)
next
  show "matchesList h (loadList v) = (\<exists>r \<in> set (loadList v). spec_matches h r)"
    by (rule matchesList_spec) (rule loadList_no_empty_rule)
next
  show "matchesList ''sub.example.com'' [''*.example.com'']"
    by (simp add: matchesList_def startsWith_def endsWith_def)
next
  show "\<not> matchesList ''example.com'' [''*.example.com'']"
    by (simp add: matchesList_def startsWith_def endsWith_def)
next
  show "\<not> matchesList ''evilexample.com'' [''*.example.com'']"
    by (simp add: matchesList_def startsWith_def endsWith_def)
qed

text \<open>
  The rule \<open>*.example.com\<close>: the relation of the specification holds for
  \<open>sub.example.com\<close> and fails for \<open>example.com\<close>.
\<close>

theorem matchesList_rule_witness:
  "spec_matches ''sub.example.com'' ''*.example.com'' \<and>
   \<not> spec_matches ''example.com'' ''*.example.com''"
proof -
  have yes: "matchesList ''sub.example.com'' [''*.example.com'']"
    and no: "\<not> matchesList ''example.com'' [''*.example.com'']"
    by (simp_all add: matchesList_def startsWith_def endsWith_def)
  have ne: "''sub.example.com'' \<noteq> [] \<or> ''*.example.com'' \<noteq> []"
    and ne': "''example.com'' \<noteq> [] \<or> ''*.example.com'' \<noteq> []"
    by simp_all
  from matchesList_rule [of "''sub.example.com''" "''*.example.com''"] ne yes
  have 1: "spec_matches ''sub.example.com'' ''*.example.com''" by blast
  from matchesList_rule [of "''example.com''" "''*.example.com''"] ne' no
  have 2: "\<not> spec_matches ''example.com'' ''*.example.com''" by blast
  from 1 2 show ?thesis by blast
qed

section \<open>The URL codec\<close>

lemma hexValue_hexDigit: "n < 16 \<Longrightarrow> hexValue (hexDigit n) = Some n"
proof -
  have digits: "\<forall>d \<in> set [0..<16]. hexValue (hexDigit d) = Some d" by code_simp
  assume "n < 16"
  then have "n \<in> set [0..<16]" by simp
  with digits show ?thesis by blast
qed

lemma unescape_encodeByte: "unescape (encodeByte c @ t) = map_option ((#) c) (unescape t)"
proof (cases "uriUnreserved c")
  case True
  then have "c \<noteq> CHR ''%''" by (auto simp: uriUnreserved_def)
  with True show ?thesis by (simp add: encodeByte_def)
next
  case False
  have lt: "(of_char c :: nat) < 256" by simp
  then have hi: "(of_char c :: nat) div 16 < 16" by arith
  have lo: "(of_char c :: nat) mod 16 < 16" by simp
  have "char_of (16 * (of_char c div 16) + of_char c mod 16 :: nat) = c"
    by simp
  with False show ?thesis
    by (simp add: encodeByte_def hexValue_hexDigit [OF hi] hexValue_hexDigit [OF lo])
qed

lemma unescape_encode: "unescape (encodeURIComponent s) = Some s"
  by (induction s) (simp_all add: encodeURIComponent_def unescape_encodeByte)

lemma encodeByte_chars:
  "x \<in> set (encodeByte c) \<Longrightarrow> x \<noteq> CHR ''&'' \<and> x \<noteq> CHR ''='' \<and> x \<noteq> CHR ''+'' \<and> x \<noteq> CHR ''?''"
proof (cases "uriUnreserved c")
  case True
  assume "x \<in> set (encodeByte c)"
  with True have "uriUnreserved x" by (simp add: encodeByte_def)
  then show ?thesis by (auto simp: uriUnreserved_def)
next
  case False
  have hd: "n < 16 \<Longrightarrow> hexDigit n \<in> set ''0123456789ABCDEF''" for n
    unfolding hexDigit_def by (rule nth_mem) simp
  have lt: "(of_char c :: nat) < 256" by simp
  then have hi: "(of_char c :: nat) div 16 < 16" by arith
  have lo: "(of_char c :: nat) mod 16 < 16" by simp
  assume "x \<in> set (encodeByte c)"
  with False have "x = CHR ''%'' \<or> x \<in> set ''0123456789ABCDEF''"
    using hd [OF hi] hd [OF lo] by (auto simp: encodeByte_def)
  then show ?thesis by auto
qed

lemma encodeURIComponent_chars:
  "x \<in> set (encodeURIComponent s) \<Longrightarrow>
     x \<noteq> CHR ''&'' \<and> x \<noteq> CHR ''='' \<and> x \<noteq> CHR ''+'' \<and> x \<noteq> CHR ''?''"
  unfolding encodeURIComponent_def using encodeByte_chars by auto

lemma js_split_single: "sep \<notin> set s \<Longrightarrow> js_split sep s = [s]"
  by (induction s) auto

lemma qs_decode_encode:
  assumes "utf8_valid s"
  shows "qs_decode (encodeURIComponent s) = s"
proof -
  have "map (\<lambda>c. if c = CHR ''+'' then CHR '' '' else c) (encodeURIComponent s)
          = encodeURIComponent s"
    using encodeURIComponent_chars by (intro map_idI) auto
  with assms show ?thesis
    by (simp add: qs_decode_def decodeURIComponent_def unescape_encode)
qed

lemma req_query_proxy_url:
  assumes "utf8_valid s"
  shows "req_query ''url'' (''/proxy?url='' @ encodeURIComponent s) = Some s"
proof -
  let ?e = "encodeURIComponent s"
  have q: "query_of (''/proxy?url='' @ ?e) = ''url='' @ ?e"
    by (simp add: query_of_def)
  have "CHR ''&'' \<notin> set (''url='' @ ?e)"
    using encodeURIComponent_chars by auto
  then have sp: "js_split CHR ''&'' (''url='' @ ?e) = [''url='' @ ?e]"
    by (rule js_split_single)
  have k: "qs_decode ''url'' = ''url''"
    by (simp add: qs_decode_def decodeURIComponent_def)
  have p: "qs_pair (''url='' @ ?e) = (''url'', s)"
    by (simp add: qs_pair_def k qs_decode_encode [OF assms])
  show ?thesis unfolding req_query_def q sp list.map p by simp
qed


text \<open>
  C3 (as the code has it). \<open>toProxyUrl\<close> serialises its argument first: for every string
  \<open>u\<close> that parses, the ProxyURL is \<open>/proxy?url=\<close> and the encoded serialisation
  \<open>new URL(u).toString()\<close>, and the \<open>url\<close> parameter that Express reads from the ProxyURL is
  that serialisation exactly, whatever reserved characters it has. It is \<open>u\<close> again exactly
  when \<open>u\<close> is its own serialisation.
\<close>

theorem toProxyUrl_round_trip:
  assumes "URL u None = Some x" and "utf8_valid (href x)"
  shows "toProxyUrl URL u = Inr (''/proxy?url='' @ encodeURIComponent (href x)) \<and>
         req_query ''url'' (''/proxy?url='' @ encodeURIComponent (href x)) = Some (href x) \<and>
         (req_query ''url'' (''/proxy?url='' @ encodeURIComponent (href x)) = Some u
            \<longleftrightarrow> href x = u)"
proof -
  have enc: "toProxyUrl URL u = Inr (''/proxy?url='' @ encodeURIComponent (href x))"
    using assms(1) by (simp add: toProxyUrl_def)
  have dec: "req_query ''url'' (''/proxy?url='' @ encodeURIComponent (href x)) = Some (href x)"
    using assms(2) by (rule req_query_proxy_url)
  from enc dec show ?thesis by simp
qed

theorem toProxyUrl_round_trip_witness:
  "toProxyUrl whatwg_sample ''http://example.com/a?q=x&r=y%20z''
     = Inr ''/proxy?url=http%3A%2F%2Fexample.com%2Fa%3Fq%3Dx%26r%3Dy%2520z'' \<and>
   req_query ''url'' ''/proxy?url=http%3A%2F%2Fexample.com%2Fa%3Fq%3Dx%26r%3Dy%2520z''
     = Some ''http://example.com/a?q=x&r=y%20z''"
proof -
  let ?u = "''http://example.com/a?q=x&r=y%20z''"
  let ?x = "mkUrl ?u ''http:'' ''example.com'' ''http://example.com'' ''/a''
              [(''q'', ''x''), (''r'', ''y z'')]"
  have p: "whatwg_sample ?u None = Some ?x" by code_simp
  have h: "href ?x = ?u" by (simp add: mkUrl_def)
  have v: "utf8_valid (href ?x)" unfolding h by code_simp
  have e: "''/proxy?url='' @ encodeURIComponent ?u
             = ''/proxy?url=http%3A%2F%2Fexample.com%2Fa%3Fq%3Dx%26r%3Dy%2520z''"
    by code_simp
  from toProxyUrl_round_trip [of whatwg_sample ?u "?x", OF p v] show ?thesis unfolding h e by simp
qed

theorem toProxyUrl_round_trip_counterexample:
  "toProxyUrl whatwg_sample ''http://example.com''
     = Inr ''/proxy?url=http%3A%2F%2Fexample.com%2F'' \<and>
   req_query ''url'' ''/proxy?url=http%3A%2F%2Fexample.com%2F'' = Some ''http://example.com/'' \<and>
   req_query ''url'' ''/proxy?url=http%3A%2F%2Fexample.com%2F'' \<noteq> Some ''http://example.com''"
  by code_simp

section \<open>The response to the client\<close>

lemma then_do_Inr: "then_do r f = Inr y \<longleftrightarrow> (\<exists>x. r = Inr x \<and> f x = Inr y)"
  by (cases r) (simp_all add: then_do_def)

lemma map_of_setHeader:
  "map_of (setHeader name v res) n = (if n = toLowerCase name then Some (name, v) else map_of res n)"
  by (simp add: setHeader_def update_conv')

lemma lower_Location: "toLowerCase ''Location'' = ''location''"
  by code_simp

lemma lower_content_type: "toLowerCase ''content-type'' = ''content-type''"
  by code_simp

lemma lower_location: "toLowerCase ''location'' = ''location''"
  by code_simp

lemma relayHeaders_lookup:
  assumes "n \<notin> set hopByHop" and "n \<notin> set framingHeaders"
  shows "map_of (relayHeaders hs res) n =
           (if filter (\<lambda>kv. toLowerCase (fst kv) = n) hs = [] then map_of res n
            else Some (last (filter (\<lambda>kv. toLowerCase (fst kv) = n) hs)))"
  using assms
proof (induction hs arbitrary: res)
  case Nil
  then show ?case by simp
next
  case (Cons kv rest)
  obtain k v where kv: "kv = (k, v)" by (cases kv)
  show ?case
  proof (cases "toLowerCase k \<in> set hopByHop \<or> toLowerCase k \<in> set framingHeaders")
    case True
    with Cons.prems have "toLowerCase k \<noteq> n" by auto
    with True Cons.IH [OF Cons.prems] show ?thesis by (auto simp: kv)
  next
    case False
    with Cons.IH [OF Cons.prems, of "setHeader k v res"] show ?thesis
      by (auto simp: kv map_of_setHeader)
  qed
qed

lemma lower_Content_Type: "toLowerCase ''Content-Type'' = ''content-type''"
  by code_simp

lemma lower_Content_Length: "toLowerCase ''Content-Length'' = ''content-length''"
  by code_simp

lemma lower_ETag: "toLowerCase ''ETag'' = ''etag''"
  by code_simp

lemma lower_Transfer_Encoding: "toLowerCase ''Transfer-Encoding'' = ''transfer-encoding''"
  by code_simp

lemma map_of_removeHeader:
  "map_of (removeHeader name res) n = (if n = toLowerCase name then None else map_of res n)"
  by (simp add: removeHeader_def delete_conv')

text \<open>
  \<open>res.send\<close> touches four names only, and an ETag that is there stays.
\<close>

lemma getHeader_setHeader:
  "getHeader (setHeader name v res) n =
     (if toLowerCase n = toLowerCase name then Some v else getHeader res n)"
  by (simp add: getHeader_def map_of_setHeader)

lemma res_send_lookup:
  assumes n1: "n \<noteq> ''content-type''" and n2: "n \<noteq> ''content-length''"
      and n3: "n \<noteq> ''transfer-encoding''"
      and e: "n = ''etag'' \<longrightarrow> present (getHeader res ''ETag'')"
  shows "map_of (res_headers (res_send L req status res chunk)) n = map_of res n"
proof -
  define typed where "typed =
    (if present (getHeader res ''Content-Type'') then res
     else setHeader ''Content-Type'' ''text/html; charset=utf-8'' res)"
  define charset where "charset =
    (case getHeader typed ''Content-Type'' of
       None \<Rightarrow> typed
     | Some type \<Rightarrow> setHeader ''Content-Type'' (setCharset L type) typed)"
  define sized where "sized = setHeader ''Content-Length'' (decimal (length chunk)) charset"
  define etagged where "etagged =
    (if \<not> present (getHeader charset ''ETag'') then
       (case etag L chunk of None \<Rightarrow> sized | Some e \<Rightarrow> setHeader ''ETag'' e sized)
     else sized)"
  define statusCode where "statusCode = (if req_fresh L req status etagged then 304 else status)"
  define stripped where "stripped =
    (if statusCode = 204 \<or> statusCode = 304 then
       removeHeader ''Transfer-Encoding''
         (removeHeader ''Content-Length'' (removeHeader ''Content-Type'' etagged))
     else etagged)"
  define reset where "reset =
    (if statusCode = 205 then
       removeHeader ''Transfer-Encoding'' (setHeader ''Content-Length'' ''0'' stripped)
     else stripped)"
  have h: "res_headers (res_send L req status res chunk) = reset"
    unfolding res_send_def Let_def reset_def stripped_def statusCode_def etagged_def sized_def
      charset_def typed_def
    by simp
  have 1: "map_of typed n = map_of res n"
    using n1 by (simp add: typed_def map_of_setHeader lower_Content_Type)
  have 2: "map_of charset n = map_of typed n"
    using n1 by (simp add: charset_def map_of_setHeader lower_Content_Type split: option.splits)
  have 3: "map_of sized n = map_of charset n"
    using n2 by (simp add: sized_def map_of_setHeader lower_Content_Length)
  have g: "getHeader charset ''ETag'' = getHeader res ''ETag''"
    by (simp add: charset_def typed_def getHeader_setHeader lower_Content_Type lower_ETag
        split: option.splits)
  have 4: "map_of etagged n = map_of sized n"
  proof (cases "n = ''etag''")
    case True
    with e g show ?thesis by (simp add: etagged_def)
  next
    case False
    then show ?thesis
      by (simp add: etagged_def map_of_setHeader lower_ETag split: option.splits)
  qed
  have 5: "map_of stripped n = map_of etagged n"
    using n1 n2 n3
    by (simp add: stripped_def map_of_removeHeader lower_Content_Type lower_Content_Length
          lower_Transfer_Encoding)
  have 6: "map_of reset n = map_of stripped n"
    using n2 n3
    by (simp add: reset_def map_of_removeHeader map_of_setHeader lower_Content_Length
          lower_Transfer_Encoding)
  from h 1 2 3 4 5 6 show ?thesis by simp
qed

lemma res_send_content_length:
  assumes "res_status (res_send L req status res chunk) \<noteq> 204"
      and "res_status (res_send L req status res chunk) \<noteq> 304"
      and "res_status (res_send L req status res chunk) \<noteq> 205"
  shows "map_of (res_headers (res_send L req status res chunk)) ''content-length''
           = Some (''Content-Length'', decimal (length chunk))"
proof -
  define typed where "typed =
    (if present (getHeader res ''Content-Type'') then res
     else setHeader ''Content-Type'' ''text/html; charset=utf-8'' res)"
  define charset where "charset =
    (case getHeader typed ''Content-Type'' of
       None \<Rightarrow> typed
     | Some type \<Rightarrow> setHeader ''Content-Type'' (setCharset L type) typed)"
  define sized where "sized = setHeader ''Content-Length'' (decimal (length chunk)) charset"
  define etagged where "etagged =
    (if \<not> present (getHeader charset ''ETag'') then
       (case etag L chunk of None \<Rightarrow> sized | Some e \<Rightarrow> setHeader ''ETag'' e sized)
     else sized)"
  define statusCode where "statusCode = (if req_fresh L req status etagged then 304 else status)"
  have s: "res_status (res_send L req status res chunk) = statusCode"
    unfolding res_send_def Let_def statusCode_def etagged_def sized_def charset_def typed_def
    by simp
  with assms have "statusCode \<noteq> 204" "statusCode \<noteq> 304" "statusCode \<noteq> 205" by simp_all
  then have h: "res_headers (res_send L req status res chunk) = etagged"
    unfolding res_send_def Let_def statusCode_def etagged_def sized_def charset_def typed_def
    by simp
  have "map_of sized ''content-length'' = Some (''Content-Length'', decimal (length chunk))"
    by (simp add: sized_def map_of_setHeader lower_Content_Length)
  then have "map_of etagged ''content-length''
               = Some (''Content-Length'', decimal (length chunk))"
    by (simp add: etagged_def map_of_setHeader lower_ETag split: option.splits)
  with h show ?thesis by simp
qed

lemma res_send_status:
  "res_status (res_send L req status res chunk) = status \<or>
   res_status (res_send L req status res chunk) = 304"
  by (simp add: res_send_def Let_def)

lemma res_send_status_error:
  "400 \<le> status \<Longrightarrow> res_status (res_send L req status res chunk) = status"
  by (simp add: res_send_def Let_def req_fresh_def)

lemma res_send_body:
  "res_body (res_send L req status res chunk) =
     (if req_method req = ''HEAD'' then Ended
      else if res_status (res_send L req status res chunk) = 204 \<or>
              res_status (res_send L req status res chunk) = 304 \<or>
              res_status (res_send L req status res chunk) = 205 then Sent []
      else Sent chunk)"
  by (simp add: res_send_def Let_def)

lemma respond_parts:
  assumes "respond cfg L req targetUrl up res = Inr r"
  shows "\<exists>relayed.
    rewriteLocation (new_URL L) targetUrl up (relayHeaders (up_headers up) res) = Inr relayed \<and>
    (selectPath cfg up = StreamingPath \<longrightarrow>
       res_status r = up_status up \<and> res_headers r = relayed \<and>
       res_body r = Piped (up_body up)) \<and>
    (selectPath cfg up = RewritePath \<longrightarrow>
       (\<exists>out. rewriteHtml L targetUrl (body_text L (up_body up)) = Inr out \<and>
              r = res_send L req (up_status up)
                    (setHeader ''content-type'' ''text/html; charset=utf-8'' relayed) out))"
proof -
  from assms obtain relayed where
    1: "rewriteLocation (new_URL L) targetUrl up (relayHeaders (up_headers up) res) = Inr relayed"
    and 2: "(case selectPath cfg up of
       StreamingPath \<Rightarrow>
         Inr \<lparr>res_status = up_status up, res_headers = relayed,
              res_body = Piped (up_body up)\<rparr>
     | RewritePath \<Rightarrow>
         then_do (rewriteHtml L targetUrl (body_text L (up_body up))) (\<lambda>out.
         Inr (res_send L req (up_status up)
                (setHeader ''content-type'' ''text/html; charset=utf-8'' relayed) out))) = Inr r"
    unfolding respond_def then_do_Inr by blast
  from 2 have "(selectPath cfg up = StreamingPath \<longrightarrow>
       res_status r = up_status up \<and> res_headers r = relayed \<and>
       res_body r = Piped (up_body up)) \<and>
    (selectPath cfg up = RewritePath \<longrightarrow>
       (\<exists>out. rewriteHtml L targetUrl (body_text L (up_body up)) = Inr out \<and>
              r = res_send L req (up_status up)
                    (setHeader ''content-type'' ''text/html; charset=utf-8'' relayed) out))"
    by (cases "selectPath cfg up") (auto simp: then_do_Inr)
  with 1 show ?thesis by blast
qed

lemma respond_lookup:
  assumes "respond cfg L req targetUrl up res = Inr r"
      and "rewriteLocation (new_URL L) targetUrl up (relayHeaders (up_headers up) res) = Inr relayed"
      and "n \<noteq> ''content-type''" and "n \<noteq> ''content-length''"
      and "n \<noteq> ''transfer-encoding''"
      and "n = ''etag'' \<longrightarrow> present (map_option snd (map_of relayed ''etag''))"
  shows "map_of (res_headers r) n = map_of relayed n"
proof (cases "selectPath cfg up")
  case StreamingPath
  with respond_parts [OF assms(1)] assms(2) show ?thesis by auto
next
  case RewritePath
  let ?typed = "setHeader ''content-type'' ''text/html; charset=utf-8'' relayed"
  from RewritePath respond_parts [OF assms(1)] assms(2) obtain out where
    r: "r = res_send L req (up_status up) ?typed out"
    by auto
  have "getHeader ?typed ''ETag'' = map_option snd (map_of relayed ''etag'')"
    by (simp add: getHeader_def map_of_setHeader lower_content_type lower_ETag)
  with assms(6) have "n = ''etag'' \<longrightarrow> present (getHeader ?typed ''ETag'')" by simp
  from res_send_lookup [OF assms(3-5) this]
  have "map_of (res_headers r) n = map_of ?typed n" by (simp add: r)
  with assms(3) show ?thesis by (simp add: map_of_setHeader lower_content_type)
qed

lemma headers_get_Some:
  "headers_get hs name = Some v \<Longrightarrow> filter (\<lambda>kv. toLowerCase (fst kv) = toLowerCase name) hs \<noteq> []"
  by (auto simp: headers_get_def split: list.splits)

lemma headers_get_single:
  "filter (\<lambda>kv. toLowerCase (fst kv) = toLowerCase name) hs = [(k, v)] \<Longrightarrow>
     headers_get hs name = Some v"
  by (simp add: headers_get_def)

lemma location_not_dropped: "''location'' \<notin> set hopByHop \<and> ''location'' \<notin> set framingHeaders"
  by (simp add: hopByHop_def framingHeaders_def)

section \<open>When the response is there\<close>

lemma toProxyUrl_resolved:
  assumes "serialisation_parses URL" and "absoluteUrl URL targetUrl ref = Some absUrl"
  shows "\<exists>p. toProxyUrl URL absUrl = Inr p"
proof -
  from assms(2) obtain u where "URL ref (Some (href targetUrl)) = Some u" and "absUrl = href u"
    by (auto simp: absoluteUrl_def)
  with assms(1) have "URL absUrl None \<noteq> None"
    unfolding serialisation_parses_def by blast
  then show ?thesis by (auto simp: toProxyUrl_def)
qed

lemma rewriteLocation_returns:
  assumes "serialisation_parses URL"
  shows "\<exists>relayed. rewriteLocation URL targetUrl up res = Inr relayed"
proof (cases "headers_get (up_headers up) ''location''")
  case None
  then show ?thesis by (simp add: rewriteLocation_def)
next
  case (Some location)
  show ?thesis
  proof (cases "absoluteUrl URL targetUrl location")
    case None
    with Some show ?thesis by (simp add: rewriteLocation_def)
  next
    case (Some absUrl)
    from toProxyUrl_resolved [OF assms Some] obtain p where "toProxyUrl URL absUrl = Inr p" ..
    with Some \<open>headers_get (up_headers up) ''location'' = Some location\<close>
    show ?thesis by (simp add: rewriteLocation_def then_do_def)
  qed
qed

lemma rewriteAttr_returns:
  assumes "serialisation_parses URL"
  shows "\<exists>attrs'. rewriteAttr URL targetUrl name attrs = Inr attrs'"
proof (cases "map_of attrs name")
  case None
  then show ?thesis by (simp add: rewriteAttr_def)
next
  case (Some v)
  show ?thesis
  proof (cases "absoluteUrl URL targetUrl v")
    case None
    with Some show ?thesis by (simp add: rewriteAttr_def)
  next
    case (Some absUrl)
    from toProxyUrl_resolved [OF assms Some] obtain p where "toProxyUrl URL absUrl = Inr p" ..
    with Some \<open>map_of attrs name = Some v\<close>
    show ?thesis by (simp add: rewriteAttr_def then_do_def)
  qed
qed

lemma rewriteResourceAttr_returns:
  assumes "serialisation_parses URL"
  shows "\<exists>attrs'. rewriteResourceAttr URL targetUrl name attrs = Inr attrs'"
  using rewriteAttr_returns [OF assms, of targetUrl name attrs]
  by (auto simp: rewriteResourceAttr_def split: option.splits)

lemma each_returns:
  "\<forall>attrs. \<exists>attrs'. f attrs = Inr attrs' \<Longrightarrow> \<exists>d'. each sel f d = Inr d'"
  "\<forall>attrs. \<exists>attrs'. f attrs = Inr attrs' \<Longrightarrow> \<exists>ds'. each_list sel f ds = Inr ds'"
proof (induction sel f d and sel f ds rule: each_each_list.induct)
  case (1 sel f s)
  then show ?case by simp
next
  case (2 sel f tag attrs kids)
  from "2.prems" obtain attrs' where a: "(if sel tag attrs then f attrs else Inr attrs) = Inr attrs'"
    by (cases "sel tag attrs") auto
  with "2.IH" "2.prems" obtain kids' where "each_list sel f kids = Inr kids'" by blast
  with a show ?case by (simp add: then_do_def)
next
  case (3 sel f)
  then show ?case by simp
next
  case (4 sel f n ns)
  from "4.IH"(1) "4.prems" obtain n' where n: "each sel f n = Inr n'" by blast
  with "4.IH"(2) "4.prems" obtain ns' where "each_list sel f ns = Inr ns'" by blast
  with n show ?case by (simp add: then_do_def)
qed

lemma rewriteDocument_returns:
  assumes "serialisation_parses URL"
  shows "\<exists>doc'. rewriteDocument URL targetUrl doc = Inr doc'"
proof -
  have a: "\<forall>attrs. \<exists>attrs'. rewriteAttr URL targetUrl name attrs = Inr attrs'" for name
    using rewriteAttr_returns [OF assms] by blast
  have r: "\<forall>attrs. \<exists>attrs'. rewriteResourceAttr URL targetUrl name attrs = Inr attrs'" for name
    using rewriteResourceAttr_returns [OF assms] by blast
  obtain links where 1:
    "each (hasAttr ''a'' ''href'') (rewriteAttr URL targetUrl ''href'') doc = Inr links"
    using each_returns(1) [OF a] by blast
  obtain srcs where 2:
    "each isResource (rewriteResourceAttr URL targetUrl ''src'') links = Inr srcs"
    using each_returns(1) [OF r] by blast
  obtain resources where 3:
    "each isResource (rewriteResourceAttr URL targetUrl ''href'') srcs = Inr resources"
    using each_returns(1) [OF r] by blast
  obtain forms where 4:
    "each (hasAttr ''form'' ''action'') (rewriteAttr URL targetUrl ''action'') resources = Inr forms"
    using each_returns(1) [OF a] by blast
  from 1 2 3 4 show ?thesis by (simp add: rewriteDocument_def then_do_def)
qed

lemma respond_returns:
  assumes "serialisation_parses (new_URL L)"
  shows "\<exists>r. respond cfg L req targetUrl up res = Inr r"
proof -
  from rewriteLocation_returns [OF assms] obtain relayed where
    l: "rewriteLocation (new_URL L) targetUrl up (relayHeaders (up_headers up) res) = Inr relayed"
    by blast
  show ?thesis
  proof (cases "selectPath cfg up")
    case StreamingPath
    with l show ?thesis by (simp add: respond_def then_do_def)
  next
    case RewritePath
    from rewriteDocument_returns [OF assms] have "\<exists>out. rewriteHtml L targetUrl htmlText = Inr out"
      for htmlText
      unfolding rewriteHtml_def Let_def then_do_Inr by blast
    then obtain out where "rewriteHtml L targetUrl (body_text L (up_body up)) = Inr out" by blast
    with l RewritePath show ?thesis by (simp add: respond_def then_do_def)
  qed
qed

lemma whatwg_sample_reparses: "serialisation_parses whatwg_sample"
  unfolding serialisation_parses_def whatwg_sample_def mkUrl_def
  by (auto split: if_splits)

section \<open>The Location of a redirect\<close>

text \<open>
  C4 (as the code has it). When the upstream supplies a Location: if the value is not empty
  and resolves against the target, the client receives the header \<open>Location\<close> with the
  ProxyURL of the resolved URL; if it does not resolve, the client receives the upstream's
  own Location header, name and value, as the relay loop copied it. A response there is,
  when the serialisation of a URL parses again.
\<close>

theorem location_relay:
  "(respond cfg L req targetUrl up res = Inr r \<and>
    headers_get (up_headers up) ''location'' = Some location \<longrightarrow>
      (location \<noteq> [] \<and> absoluteUrl (new_URL L) targetUrl location = Some absUrl \<and>
       absUrl \<noteq> [] \<longrightarrow>
         (\<exists>p. toProxyUrl (new_URL L) absUrl = Inr p \<and>
              map_of (res_headers r) ''location'' = Some (''Location'', p))) \<and>
      (absoluteUrl (new_URL L) targetUrl location = None \<longrightarrow>
         map_of (res_headers r) ''location''
           = Some (last (filter (\<lambda>kv. toLowerCase (fst kv) = ''location'') (up_headers up))) \<and>
         (\<forall>k v. filter (\<lambda>kv. toLowerCase (fst kv) = ''location'') (up_headers up) = [(k, v)]
             \<longrightarrow> v = location))) \<and>
   (serialisation_parses (new_URL L) \<longrightarrow> (\<exists>r. respond cfg L req targetUrl up res = Inr r))"
proof (intro conjI)
  show "serialisation_parses (new_URL L) \<longrightarrow> (\<exists>r. respond cfg L req targetUrl up res = Inr r)"
    using respond_returns by blast
next
  show "respond cfg L req targetUrl up res = Inr r \<and>
    headers_get (up_headers up) ''location'' = Some location \<longrightarrow>
      (location \<noteq> [] \<and> absoluteUrl (new_URL L) targetUrl location = Some absUrl \<and>
       absUrl \<noteq> [] \<longrightarrow>
         (\<exists>p. toProxyUrl (new_URL L) absUrl = Inr p \<and>
              map_of (res_headers r) ''location'' = Some (''Location'', p))) \<and>
      (absoluteUrl (new_URL L) targetUrl location = None \<longrightarrow>
         map_of (res_headers r) ''location''
           = Some (last (filter (\<lambda>kv. toLowerCase (fst kv) = ''location'') (up_headers up))) \<and>
         (\<forall>k v. filter (\<lambda>kv. toLowerCase (fst kv) = ''location'') (up_headers up) = [(k, v)]
             \<longrightarrow> v = location))"
  proof
    assume "respond cfg L req targetUrl up res = Inr r \<and>
      headers_get (up_headers up) ''location'' = Some location"
    then have r: "respond cfg L req targetUrl up res = Inr r"
      and g: "headers_get (up_headers up) ''location'' = Some location"
      by simp_all
    let ?loop = "relayHeaders (up_headers up) res"
    from respond_parts [OF r] obtain relayed where
      rl: "rewriteLocation (new_URL L) targetUrl up ?loop = Inr relayed" by blast
    have look: "map_of (res_headers r) ''location'' = map_of relayed ''location''"
      by (rule respond_lookup [OF r rl]) simp_all
    have ne: "filter (\<lambda>kv. toLowerCase (fst kv) = ''location'') (up_headers up) \<noteq> []"
      using headers_get_Some [OF g] by (simp add: lower_location)
    have raw: "map_of ?loop ''location''
                 = Some (last (filter (\<lambda>kv. toLowerCase (fst kv) = ''location'') (up_headers up)))"
      using ne location_not_dropped
      by (simp add: relayHeaders_lookup)
    show "(location \<noteq> [] \<and> absoluteUrl (new_URL L) targetUrl location = Some absUrl \<and>
            absUrl \<noteq> [] \<longrightarrow>
              (\<exists>p. toProxyUrl (new_URL L) absUrl = Inr p \<and>
                   map_of (res_headers r) ''location'' = Some (''Location'', p))) \<and>
           (absoluteUrl (new_URL L) targetUrl location = None \<longrightarrow>
              map_of (res_headers r) ''location''
                = Some (last (filter (\<lambda>kv. toLowerCase (fst kv) = ''location'') (up_headers up))) \<and>
              (\<forall>k v. filter (\<lambda>kv. toLowerCase (fst kv) = ''location'') (up_headers up) = [(k, v)]
                  \<longrightarrow> v = location))"
    proof (intro conjI impI allI)
      assume a: "location \<noteq> [] \<and> absoluteUrl (new_URL L) targetUrl location = Some absUrl \<and>
                 absUrl \<noteq> []"
      with rl g obtain p where
        p: "toProxyUrl (new_URL L) absUrl = Inr p" and "relayed = setHeader ''Location'' p ?loop"
        by (auto simp: rewriteLocation_def then_do_Inr)
      then have "map_of relayed ''location'' = Some (''Location'', p)"
        by (simp add: map_of_setHeader lower_Location)
      with look p show "\<exists>p. toProxyUrl (new_URL L) absUrl = Inr p \<and>
                   map_of (res_headers r) ''location'' = Some (''Location'', p)"
        by simp
    next
      assume "absoluteUrl (new_URL L) targetUrl location = None"
      with rl g have "relayed = ?loop"
        by (auto simp: rewriteLocation_def split: if_splits)
      with look raw show "map_of (res_headers r) ''location''
                = Some (last (filter (\<lambda>kv. toLowerCase (fst kv) = ''location'') (up_headers up)))"
        by simp
    next
      fix k v
      assume "filter (\<lambda>kv. toLowerCase (fst kv) = ''location'') (up_headers up) = [(k, v)]"
      then have "headers_get (up_headers up) ''location'' = Some v"
        by (intro headers_get_single) (simp add: lower_location)
      with g show "v = location" by simp
    qed
  qed
qed

text \<open>
  The upstream answers \<open>Location: http://\<close>, which does not resolve: the client receives
  it as it is.
\<close>

theorem location_relay_counterexample:
  "absoluteUrl whatwg_sample sample_target ''http://'' = None \<and>
   (case respond sample_config (sample_libs None) sample_request sample_target
           \<lparr>up_status = 302, up_headers = [(''location'', ''http://'')], up_body = []\<rparr>
           corsHeaders of
      Inl e \<Rightarrow> None
    | Inr r \<Rightarrow> map_of (res_headers r) ''location'') = Some (''location'', ''http://'')"
  by code_simp

text \<open>
  Scenario B of the specification: status 301 with \<open>Location: /new\<close>, for the target
  \<open>http://example.com/index.html\<close>.
\<close>

theorem location_relay_witness:
  "(case respond sample_config (sample_libs None) sample_request sample_target
           \<lparr>up_status = 301, up_headers = [(''location'', ''/new'')], up_body = []\<rparr>
           corsHeaders of
      Inl e \<Rightarrow> None
    | Inr r \<Rightarrow> map_of (res_headers r) ''location'')
     = Some (''Location'', ''/proxy?url=http%3A%2F%2Fexample.com%2Fnew'')"
proof -
  let ?up = "\<lparr>up_status = 301, up_headers = [(''location'', ''/new'')], up_body = []\<rparr>"
  let ?L = "sample_libs None"
  have "serialisation_parses (new_URL ?L)"
    by (simp add: sample_libs_def whatwg_sample_reparses)
  with location_relay [of sample_config ?L sample_request sample_target ?up corsHeaders]
  obtain r where r: "respond sample_config ?L sample_request sample_target ?up corsHeaders = Inr r"
    by blast
  have g: "headers_get (up_headers ?up) ''location'' = Some ''/new''" by code_simp
  have a: "absoluteUrl (new_URL ?L) sample_target ''/new'' = Some ''http://example.com/new''"
    by code_simp
  have p: "toProxyUrl (new_URL ?L) ''http://example.com/new''
             = Inr ''/proxy?url=http%3A%2F%2Fexample.com%2Fnew''"
    by code_simp
  from location_relay [of sample_config ?L sample_request sample_target ?up corsHeaders r "''/new''"
      "''http://example.com/new''"] r g a p
  have "map_of (res_headers r) ''location''
          = Some (''Location'', ''/proxy?url=http%3A%2F%2Fexample.com%2Fnew'')"
    by simp
  with r show ?thesis by simp
qed

section \<open>The relay of the upstream headers\<close>

lemma set_setHeader: "set (setHeader name v res) \<subseteq> insert (toLowerCase name, name, v) (set res)"
  unfolding setHeader_def by (induction res) auto

lemma clean_setHeader:
  "clean res \<Longrightarrow> toLowerCase name \<notin> set hopByHop \<Longrightarrow>
     toLowerCase name \<notin> set framingHeaders \<Longrightarrow> clean (setHeader name v res)"
  unfolding clean_def using set_setHeader [of name v res] by fastforce

lemma clean_relayHeaders: "clean res \<Longrightarrow> clean (relayHeaders hs res)"
proof (induction hs arbitrary: res)
  case Nil
  then show ?case by simp
next
  case (Cons kv rest)
  obtain k v where kv: "kv = (k, v)" by (cases kv)
  from Cons show ?case by (auto simp: kv intro!: clean_setHeader)
qed

lemma clean_corsHeaders: "clean corsHeaders"
  unfolding clean_def by code_simp

lemma Location_not_dropped:
  "toLowerCase ''Location'' \<notin> set hopByHop" "toLowerCase ''Location'' \<notin> set framingHeaders"
  by code_simp+

lemma content_type_not_dropped:
  "toLowerCase ''content-type'' \<notin> set hopByHop"
  "toLowerCase ''content-type'' \<notin> set framingHeaders"
  by code_simp+

lemma clean_rewriteLocation:
  "clean res \<Longrightarrow> rewriteLocation URL targetUrl up res = Inr relayed \<Longrightarrow> clean relayed"
  by (auto simp: rewriteLocation_def then_do_Inr clean_setHeader Location_not_dropped
           split: option.splits if_splits)

lemma clean_removeHeader: "clean res \<Longrightarrow> clean (removeHeader name res)"
  by (auto simp: clean_def removeHeader_def AList.delete_eq)

lemma Content_Type_not_dropped:
  "toLowerCase ''Content-Type'' \<notin> set hopByHop"
  "toLowerCase ''Content-Type'' \<notin> set framingHeaders"
  by code_simp+

lemma Content_Length_not_dropped:
  "toLowerCase ''Content-Length'' \<notin> set hopByHop"
  "toLowerCase ''Content-Length'' \<notin> set framingHeaders"
  by code_simp+

lemma ETag_not_dropped:
  "toLowerCase ''ETag'' \<notin> set hopByHop" "toLowerCase ''ETag'' \<notin> set framingHeaders"
  by code_simp+

lemma clean_res_send:
  assumes "clean res"
  shows "clean (res_headers (res_send L req status res chunk))"
  using assms
  by (simp add: res_send_def Let_def clean_setHeader clean_removeHeader
        Content_Type_not_dropped Content_Length_not_dropped ETag_not_dropped
      split: option.splits)

lemma clean_respond:
  assumes "clean res" and "respond cfg L req targetUrl up res = Inr r"
  shows "clean (res_headers r)"
proof -
  from respond_parts [OF assms(2)] obtain relayed where
    rl: "rewriteLocation (new_URL L) targetUrl up (relayHeaders (up_headers up) res) = Inr relayed"
    and s: "selectPath cfg up = StreamingPath \<longrightarrow> res_headers r = relayed"
    and w: "selectPath cfg up = RewritePath \<longrightarrow>
       (\<exists>out. r = res_send L req (up_status up)
                     (setHeader ''content-type'' ''text/html; charset=utf-8'' relayed) out)"
    by blast
  have "clean relayed"
    using clean_rewriteLocation [OF clean_relayHeaders [OF assms(1)] rl] .
  then have "clean (setHeader ''content-type'' ''text/html; charset=utf-8'' relayed)"
    by (simp add: clean_setHeader content_type_not_dropped)
  then have "clean (res_headers (res_send L req (up_status up)
               (setHeader ''content-type'' ''text/html; charset=utf-8'' relayed) out))" for out
    by (rule clean_res_send)
  with s w \<open>clean relayed\<close> show ?thesis
    by (cases "selectPath cfg up") auto
qed

lemma proxy_result:
  assumes "proxy cfg L req res = (fc, out)"
  shows "(fc = None \<and> (\<exists>code text. out = Inr (reply code text res))) \<or>
         (\<exists>target targetUrl call.
            req_query_url req = Some target \<and> target \<noteq> [] \<and>
            new_URL L target None = Some targetUrl \<and>
            protocol targetUrl \<in> set [''http:'', ''https:''] \<and>
            isAllowed cfg targetUrl \<and>
            fc = Some call \<and> fc_url call = href targetUrl \<and>
            (case fetch L call of
               None \<Rightarrow> out = Inr (reply 502 ''Upstream fetch failed'' res)
             | Some up \<Rightarrow> out = respond cfg L req targetUrl up res))"
  using assms unfolding proxy_def Let_def
  by (auto split: option.splits if_splits)

lemma app_result:
  assumes "app cfg L req = (fc, out)"
  shows "(fc = None \<and> out = Inr \<lparr>res_status = 200, res_headers = corsHeaders, res_body = Ended\<rparr>) \<or>
         (fc = None \<and> (\<exists>code text. out = Inr (reply code text corsHeaders))) \<or>
         (\<exists>target targetUrl call.
            req_query_url req = Some target \<and> target \<noteq> [] \<and>
            new_URL L target None = Some targetUrl \<and>
            protocol targetUrl \<in> set [''http:'', ''https:''] \<and>
            isAllowed cfg targetUrl \<and>
            fc = Some call \<and> fc_url call = href targetUrl \<and>
            (case fetch L call of
               None \<Rightarrow> out = Inr (reply 502 ''Upstream fetch failed'' corsHeaders)
             | Some up \<Rightarrow> out = respond cfg L req targetUrl up corsHeaders))"
proof (cases "req_method req = ''OPTIONS''")
  case True
  with assms show ?thesis by (auto simp: app_def)
next
  case False
  with assms have "proxy cfg L req corsHeaders = (fc, out)" by (simp add: app_def)
  from proxy_result [OF this] show ?thesis by blast
qed

lemma clean_app:
  assumes "snd (app cfg L req) = Inr r"
  shows "clean (res_headers r)"
proof -
  obtain fc out where a: "app cfg L req = (fc, out)" by (cases "app cfg L req")
  with assms have out: "out = Inr r" by simp
  from app_result [OF a] show ?thesis
  proof (elim disjE exE conjE)
    assume "out = Inr \<lparr>res_status = 200, res_headers = corsHeaders, res_body = Ended\<rparr>"
    with out show ?thesis by (auto simp: clean_corsHeaders)
  next
    fix code msg
    assume "out = Inr (reply code msg corsHeaders)"
    with out show ?thesis by (auto simp: reply_def clean_corsHeaders)
  next
    fix target targetUrl call
    assume c: "case fetch L call of
                 None \<Rightarrow> out = Inr (reply 502 ''Upstream fetch failed'' corsHeaders)
               | Some up \<Rightarrow> out = respond cfg L req targetUrl up corsHeaders"
    show ?thesis
    proof (cases "fetch L call")
      case None
      with c out show ?thesis by (auto simp: reply_def clean_corsHeaders)
    next
      case (Some up)
      with c out have "respond cfg L req targetUrl up corsHeaders = Inr r" by simp
      with clean_corsHeaders show ?thesis by (rule clean_respond)
    qed
  qed
qed

lemma relayed_once:
  assumes "(k, v) \<in> set hs"
      and "toLowerCase k \<notin> set hopByHop" and "toLowerCase k \<notin> set framingHeaders"
      and "\<forall>kv \<in> set hs. toLowerCase (fst kv) = toLowerCase k \<longrightarrow> kv = (k, v)"
  shows "map_of (relayHeaders hs res) (toLowerCase k) = Some (k, v)"
proof -
  let ?same = "filter (\<lambda>kv. toLowerCase (fst kv) = toLowerCase k) hs"
  from assms(1) have "(k, v) \<in> set ?same" by simp
  then have ne: "?same \<noteq> []" by (metis empty_iff list.set(1))
  then have "last ?same \<in> set ?same" by (rule last_in_set)
  with assms(4) have "last ?same = (k, v)" by auto
  with ne show ?thesis
    by (simp add: relayHeaders_lookup [OF assms(2,3)])
qed

lemma rewrite_path_content_length:
  assumes "respond cfg L req targetUrl up res = Inr r" and "selectPath cfg up = RewritePath"
      and "res_status r \<noteq> 204" and "res_status r \<noteq> 304" and "res_status r \<noteq> 205"
  shows "\<exists>out. rewriteHtml L targetUrl (body_text L (up_body up)) = Inr out \<and>
           map_of (res_headers r) ''content-length''
             = Some (''Content-Length'', decimal (length out))"
proof -
  from respond_parts [OF assms(1)] assms(2) obtain relayed out where
    o: "rewriteHtml L targetUrl (body_text L (up_body up)) = Inr out"
    and r: "r = res_send L req (up_status up)
                  (setHeader ''content-type'' ''text/html; charset=utf-8'' relayed) out"
    by blast
  from assms(3-5) have "map_of (res_headers r) ''content-length''
             = Some (''Content-Length'', decimal (length out))"
    unfolding r by (rule res_send_content_length)
  with o show ?thesis by blast
qed

lemma lower_char_idem:
  fixes c :: char
  assumes "65 \<le> (of_char c :: nat)" and "(of_char c :: nat) \<le> 90"
  shows "\<not> (65 \<le> (of_char (char_of ((of_char c :: nat) + 32) :: char) :: nat) \<and>
            (of_char (char_of ((of_char c :: nat) + 32) :: char) :: nat) \<le> 90)"
proof -
  from assms have "((of_char c :: nat) + 32) mod 256 = of_char c + 32" by simp
  then have "(of_char (char_of ((of_char c :: nat) + 32) :: char) :: nat) = of_char c + 32"
    by simp
  with assms show ?thesis by simp
qed

lemma toLowerCase_idem: "toLowerCase (toLowerCase s) = toLowerCase s"
  unfolding toLowerCase_def using lower_char_idem by (induction s) simp_all

lemma set_insert_name: "set (insert_name n ms) = insert n (set ms)"
  by (induction ms) auto

lemma set_sort_names: "set (sort_names ns) = set ns"
  by (induction ns) (simp_all add: sort_names_def set_insert_name)

lemma Headers_entries_iff:
  "kv \<in> set (Headers_entries raw) \<longleftrightarrow>
     (\<exists>e \<in> set raw. kv \<in> set (entries_of raw (toLowerCase (fst e))))"
  by (auto simp: Headers_entries_def set_sort_names)

lemma entries_of_name: "kv \<in> set (entries_of raw name) \<Longrightarrow> fst kv = name"
  by (auto simp: entries_of_def Let_def split: if_splits)

lemma entries_of_single:
  assumes "filter (\<lambda>kv. toLowerCase (fst kv) = name) raw = [(K, v)]"
  shows "set (entries_of raw name) = {(name, v)}"
  by (simp add: entries_of_def Let_def assms)

lemma Headers_entries_names:
  "kv \<in> set (Headers_entries raw) \<Longrightarrow> toLowerCase (fst kv) = fst kv"
proof -
  assume "kv \<in> set (Headers_entries raw)"
  then obtain e :: "string \<times> string"
    where "kv \<in> set (entries_of raw (toLowerCase (fst e)))"
    unfolding Headers_entries_iff by blast
  then have "fst kv = toLowerCase (fst e)" by (rule entries_of_name)
  then show ?thesis by (simp add: toLowerCase_idem)
qed

lemma Headers_entries_single:
  assumes "filter (\<lambda>kv. toLowerCase (fst kv) = toLowerCase K) raw = [(K, v)]"
  shows "(toLowerCase K, v) \<in> set (Headers_entries raw) \<and>
         (\<forall>kv \<in> set (Headers_entries raw).
            toLowerCase (fst kv) = toLowerCase K \<longrightarrow> kv = (toLowerCase K, v))"
proof (intro conjI ballI impI)
  have "(K, v) \<in> set (filter (\<lambda>kv. toLowerCase (fst kv) = toLowerCase K) raw)"
    by (simp add: assms)
  then have "(K, v) \<in> set raw" by simp
  moreover from entries_of_single [OF assms]
  have "(toLowerCase K, v) \<in> set (entries_of raw (toLowerCase (fst (K, v))))" by simp
  ultimately show "(toLowerCase K, v) \<in> set (Headers_entries raw)"
    unfolding Headers_entries_iff by blast
next
  fix kv
  assume kv: "kv \<in> set (Headers_entries raw)" and n: "toLowerCase (fst kv) = toLowerCase K"
  from Headers_entries_names [OF kv] n have f: "fst kv = toLowerCase K" by simp
  from kv obtain e :: "string \<times> string"
    where "kv \<in> set (entries_of raw (toLowerCase (fst e)))"
    unfolding Headers_entries_iff by blast
  with entries_of_name [OF this] f have "kv \<in> set (entries_of raw (toLowerCase K))" by simp
  with entries_of_single [OF assms] show "kv = (toLowerCase K, v)" by simp
qed

lemma transfer_encoding_dropped: "''transfer-encoding'' \<in> set hopByHop"
  by code_simp

lemma respond_relays:
  assumes r': "respond cfg L req targetUrl up res = Inr r'"
      and m: "(k, v) \<in> set (up_headers up)"
      and d: "toLowerCase k \<notin> set hopByHop" "toLowerCase k \<notin> set framingHeaders"
      and u: "\<forall>kv \<in> set (up_headers up). toLowerCase (fst kv) = toLowerCase k \<longrightarrow> kv = (k, v)"
      and nl: "toLowerCase k \<noteq> ''location''"
      and w: "selectPath cfg up = RewritePath \<longrightarrow>
                toLowerCase k \<noteq> ''content-type'' \<and> toLowerCase k \<noteq> ''content-length'' \<and>
                (toLowerCase k = ''etag'' \<longrightarrow> v \<noteq> [])"
  shows "map_of (res_headers r') (toLowerCase k) = Some (k, v)"
proof -
  let ?n = "toLowerCase k"
  let ?loop = "relayHeaders (up_headers up) res"
  from respond_parts [OF r'] obtain relayed where
    rl: "rewriteLocation (new_URL L) targetUrl up ?loop = Inr relayed"
    and s: "selectPath cfg up = StreamingPath \<longrightarrow> res_headers r' = relayed"
    by blast
  from rl have "relayed = ?loop \<or> (\<exists>p. relayed = setHeader ''Location'' p ?loop)"
    by (auto simp: rewriteLocation_def then_do_Inr split: option.splits if_splits)
  with nl have 2: "map_of relayed ?n = map_of ?loop ?n"
    by (auto simp: map_of_setHeader lower_Location)
  from m d u have 3: "map_of ?loop ?n = Some (k, v)"
    by (rule relayed_once)
  have 1: "map_of (res_headers r') ?n = map_of relayed ?n"
  proof (cases "selectPath cfg up")
    case StreamingPath
    with s show ?thesis by simp
  next
    case RewritePath
    with w have n: "?n \<noteq> ''content-type''" "?n \<noteq> ''content-length''"
      and e: "?n = ''etag'' \<longrightarrow> v \<noteq> []"
      by auto
    from d(1) transfer_encoding_dropped have t: "?n \<noteq> ''transfer-encoding''" by auto
    from e 2 3 have "?n = ''etag'' \<longrightarrow> present (map_option snd (map_of relayed ''etag''))"
      by (auto simp: present_def)
    from respond_lookup [OF r' rl n t this] show ?thesis .
  qed
  from 1 2 3 show ?thesis by simp
qed

text \<open>
  C8 (as the code has it). No response carries a hop-by-hop or framing header, and
  \<open>res.send\<close> adds none to the headers that it is given. An upstream header under another
  name, of which the fetch layer yields one pair, is in the response under the name and
  with the value of that pair, unless it is the Location (which C4 rewrites) or, on the
  Rewrite Path, the content-type or the content-length (which \<open>res.send\<close> sets anew) or
  an empty etag (which \<open>res.send\<close> replaces). So a header that the upstream wrote once,
  under the name \<open>K\<close>, is in the response with its value and under the name \<open>K\<close> in lower
  case, which is how undici yields it. A response there is, when the serialisation of a
  URL parses again.
\<close>

theorem header_relay:
  "(snd (app cfg L req) = Inr r \<longrightarrow> clean (res_headers r)) \<and>
   (clean h \<longrightarrow> clean (res_headers (res_send L req status h chunk))) \<and>
   (respond cfg L req targetUrl up res = Inr r' \<and> (k, v) \<in> set (up_headers up) \<and>
    toLowerCase k \<notin> set hopByHop \<and> toLowerCase k \<notin> set framingHeaders \<and>
    (\<forall>kv \<in> set (up_headers up). toLowerCase (fst kv) = toLowerCase k \<longrightarrow> kv = (k, v)) \<and>
    toLowerCase k \<noteq> ''location'' \<and>
    (selectPath cfg up = RewritePath \<longrightarrow>
       toLowerCase k \<noteq> ''content-type'' \<and> toLowerCase k \<noteq> ''content-length'' \<and>
       (toLowerCase k = ''etag'' \<longrightarrow> v \<noteq> []))
    \<longrightarrow> map_of (res_headers r') (toLowerCase k) = Some (k, v)) \<and>
   (respond cfg L req targetUrl up res = Inr r' \<and> up_headers up = Headers_entries raw \<and>
    filter (\<lambda>kv. toLowerCase (fst kv) = toLowerCase K) raw = [(K, w)] \<and>
    toLowerCase K \<notin> set hopByHop \<and> toLowerCase K \<notin> set framingHeaders \<and>
    toLowerCase K \<noteq> ''location'' \<and>
    (selectPath cfg up = RewritePath \<longrightarrow>
       toLowerCase K \<noteq> ''content-type'' \<and> toLowerCase K \<noteq> ''content-length'' \<and>
       (toLowerCase K = ''etag'' \<longrightarrow> w \<noteq> []))
    \<longrightarrow> map_of (res_headers r') (toLowerCase K) = Some (toLowerCase K, w)) \<and>
   (serialisation_parses (new_URL L) \<longrightarrow> (\<exists>r. respond cfg L req targetUrl up res = Inr r))"
proof (intro conjI impI)
  assume "serialisation_parses (new_URL L)"
  then show "\<exists>r. respond cfg L req targetUrl up res = Inr r" by (rule respond_returns)
next
  assume "snd (app cfg L req) = Inr r"
  then show "clean (res_headers r)" by (rule clean_app)
next
  assume "clean h"
  then show "clean (res_headers (res_send L req status h chunk))" by (rule clean_res_send)
next
  assume "respond cfg L req targetUrl up res = Inr r' \<and> (k, v) \<in> set (up_headers up) \<and>
    toLowerCase k \<notin> set hopByHop \<and> toLowerCase k \<notin> set framingHeaders \<and>
    (\<forall>kv \<in> set (up_headers up). toLowerCase (fst kv) = toLowerCase k \<longrightarrow> kv = (k, v)) \<and>
    toLowerCase k \<noteq> ''location'' \<and>
    (selectPath cfg up = RewritePath \<longrightarrow>
       toLowerCase k \<noteq> ''content-type'' \<and> toLowerCase k \<noteq> ''content-length'' \<and>
       (toLowerCase k = ''etag'' \<longrightarrow> v \<noteq> []))"
  then show "map_of (res_headers r') (toLowerCase k) = Some (k, v)"
    by (intro respond_relays [of cfg L req targetUrl up res]) simp_all
next
  assume a: "respond cfg L req targetUrl up res = Inr r' \<and> up_headers up = Headers_entries raw \<and>
    filter (\<lambda>kv. toLowerCase (fst kv) = toLowerCase K) raw = [(K, w)] \<and>
    toLowerCase K \<notin> set hopByHop \<and> toLowerCase K \<notin> set framingHeaders \<and>
    toLowerCase K \<noteq> ''location'' \<and>
    (selectPath cfg up = RewritePath \<longrightarrow>
       toLowerCase K \<noteq> ''content-type'' \<and> toLowerCase K \<noteq> ''content-length'' \<and>
       (toLowerCase K = ''etag'' \<longrightarrow> w \<noteq> []))"
  then have f: "filter (\<lambda>kv. toLowerCase (fst kv) = toLowerCase K) raw = [(K, w)]" by simp
  from a Headers_entries_single [OF f]
  have "map_of (res_headers r') (toLowerCase (toLowerCase K)) = Some (toLowerCase K, w)"
    by (intro respond_relays [of cfg L req targetUrl up res]) (simp_all add: toLowerCase_idem)
  then show "map_of (res_headers r') (toLowerCase K) = Some (toLowerCase K, w)"
    by (simp add: toLowerCase_idem)
qed

text \<open>
  A request for \<open>http://example.com/index.html\<close>; the upstream answers with an image and
  writes four headers, of which two are dropped and two are relayed. An answer
  \<open>403 Blocked by policy\<close> has no such header after \<open>res.send\<close> either.
\<close>

theorem header_relay_witness:
  "(case snd (app sample_config
               (sample_libs (Some \<lparr>up_status = 200,
                  up_headers = Headers_entries
                    [(''Cache-Control'', ''no-store''), (''Connection'', ''close''),
                     (''Content-Type'', ''image/png''), (''X-Frame-Options'', ''DENY'')],
                  up_body = ''PNG''\<rparr>))
               sample_request) of
      Inl e \<Rightarrow> False
    | Inr r \<Rightarrow> clean (res_headers r) \<and>
              map_of (res_headers r) ''cache-control'' = Some (''cache-control'', ''no-store'') \<and>
              map_of (res_headers r) ''content-type'' = Some (''content-type'', ''image/png'')) \<and>
   clean (res_headers (res_send (sample_libs None) sample_request 403 corsHeaders
            ''Blocked by policy''))"
proof -
  let ?raw = "[(''Cache-Control'', ''no-store''), (''Connection'', ''close''),
               (''Content-Type'', ''image/png''), (''X-Frame-Options'', ''DENY'')]"
  let ?up = "\<lparr>up_status = 200, up_headers = Headers_entries ?raw, up_body = ''PNG''\<rparr>"
  let ?L = "sample_libs (Some ?up)"
  have e: "snd (app sample_config ?L sample_request)
             = respond sample_config ?L sample_request sample_target ?up corsHeaders"
    by code_simp
  have "serialisation_parses (new_URL ?L)"
    by (simp add: sample_libs_def whatwg_sample_reparses)
  from header_relay [where cfg = sample_config and L = ?L and req = sample_request
      and targetUrl = sample_target and up = ?up and res = corsHeaders,
      THEN conjunct2, THEN conjunct2, THEN conjunct2, THEN conjunct2, THEN mp, OF this]
  obtain r where r: "respond sample_config ?L sample_request sample_target ?up corsHeaders = Inr r"
    by blast
  have f: "filter (\<lambda>kv. toLowerCase (fst kv) = toLowerCase ''Cache-Control'') ?raw
             = [(''Cache-Control'', ''no-store'')]"
    by code_simp
  have l: "toLowerCase ''Cache-Control'' = ''cache-control''" by code_simp
  have k: "toLowerCase ''Cache-Control'' \<notin> set hopByHop \<and>
           toLowerCase ''Cache-Control'' \<notin> set framingHeaders \<and>
           toLowerCase ''Cache-Control'' \<noteq> ''location'' \<and>
           toLowerCase ''Cache-Control'' \<noteq> ''content-type'' \<and>
           toLowerCase ''Cache-Control'' \<noteq> ''content-length'' \<and>
           toLowerCase ''Cache-Control'' \<noteq> ''etag''"
    by code_simp
  have p: "selectPath sample_config ?up \<noteq> RewritePath" by code_simp
  have c: "(''content-type'', ''image/png'') \<in> set (up_headers ?up) \<and>
           toLowerCase ''content-type'' \<notin> set hopByHop \<and>
           toLowerCase ''content-type'' \<notin> set framingHeaders \<and>
           (\<forall>kv \<in> set (up_headers ?up). toLowerCase (fst kv) = toLowerCase ''content-type''
               \<longrightarrow> kv = (''content-type'', ''image/png'')) \<and>
           toLowerCase ''content-type'' \<noteq> ''location''"
    by code_simp
  note t = header_relay [where cfg = sample_config and L = ?L and req = sample_request
      and r = r and targetUrl = sample_target and up = ?up and res = corsHeaders and r' = r
      and k = "''content-type''" and v = "''image/png''"
      and K = "''Cache-Control''" and raw = ?raw and w = "''no-store''"]
  note t1 = t [THEN conjunct1]
  note t3 = t [THEN conjunct2, THEN conjunct2, THEN conjunct1]
  note t4 = t [THEN conjunct2, THEN conjunct2, THEN conjunct2, THEN conjunct1]
  from c p r
  have "respond sample_config ?L sample_request sample_target ?up corsHeaders = Inr r \<and>
    (''content-type'', ''image/png'') \<in> set (up_headers ?up) \<and>
    toLowerCase ''content-type'' \<notin> set hopByHop \<and>
    toLowerCase ''content-type'' \<notin> set framingHeaders \<and>
    (\<forall>kv \<in> set (up_headers ?up). toLowerCase (fst kv) = toLowerCase ''content-type''
        \<longrightarrow> kv = (''content-type'', ''image/png'')) \<and>
    toLowerCase ''content-type'' \<noteq> ''location'' \<and>
    (selectPath sample_config ?up = RewritePath \<longrightarrow>
       toLowerCase ''content-type'' \<noteq> ''content-type'' \<and>
       toLowerCase ''content-type'' \<noteq> ''content-length'' \<and>
       (toLowerCase ''content-type'' = ''etag'' \<longrightarrow> ''image/png'' \<noteq> []))"
    by blast
  note b = t3 [THEN mp, OF this]
  from e r have a: "snd (app sample_config ?L sample_request) = Inr r" by simp
  have h: "up_headers ?up = Headers_entries ?raw" by simp
  from k r h f
  have "respond sample_config ?L sample_request sample_target ?up corsHeaders = Inr r \<and>
    up_headers ?up = Headers_entries ?raw \<and>
    filter (\<lambda>kv. toLowerCase (fst kv) = toLowerCase ''Cache-Control'') ?raw
      = [(''Cache-Control'', ''no-store'')] \<and>
    toLowerCase ''Cache-Control'' \<notin> set hopByHop \<and>
    toLowerCase ''Cache-Control'' \<notin> set framingHeaders \<and>
    toLowerCase ''Cache-Control'' \<noteq> ''location'' \<and>
    (selectPath sample_config ?up = RewritePath \<longrightarrow>
       toLowerCase ''Cache-Control'' \<noteq> ''content-type'' \<and>
       toLowerCase ''Cache-Control'' \<noteq> ''content-length'' \<and>
       (toLowerCase ''Cache-Control'' = ''etag'' \<longrightarrow> ''no-store'' \<noteq> []))"
    by blast
  from t1 [THEN mp, OF a] t4 [THEN mp, OF this] b
  have "clean (res_headers r) \<and>
        map_of (res_headers r) (toLowerCase ''Cache-Control'')
          = Some (toLowerCase ''Cache-Control'', ''no-store'') \<and>
        map_of (res_headers r) (toLowerCase ''content-type'')
          = Some (''content-type'', ''image/png'')"
    by blast
  moreover from header_relay [where L = "sample_libs None" and req = sample_request
      and h = corsHeaders and status = 403 and chunk = "''Blocked by policy''",
      THEN conjunct2, THEN conjunct1, THEN mp, OF clean_corsHeaders]
  have "clean (res_headers (res_send (sample_libs None) sample_request 403 corsHeaders
                 ''Blocked by policy''))" .
  ultimately show ?thesis using e r l lower_content_type by simp
qed

text \<open>
  The same request; the upstream writes \<open>Cache-Control: no-store\<close> on an image. The fetch
  layer yields the name in lower case, and under that name the client receives the
  header: the case that the upstream wrote is not preserved.
\<close>

theorem header_relay_counterexample:
  "Headers_entries [(''Cache-Control'', ''no-store''), (''Content-Type'', ''image/png'')]
     = [(''cache-control'', ''no-store''), (''content-type'', ''image/png'')] \<and>
   (case snd (app sample_config
               (sample_libs (Some \<lparr>up_status = 200,
                  up_headers = Headers_entries
                    [(''Cache-Control'', ''no-store''), (''Content-Type'', ''image/png'')],
                  up_body = ''PNG''\<rparr>))
               sample_request) of
      Inl e \<Rightarrow> None
    | Inr r \<Rightarrow> Some (map_of (res_headers r) ''cache-control'',
                     ''Cache-Control'' \<in> set (map (\<lambda>e. fst (snd e)) (res_headers r))))
     = Some (Some (''cache-control'', ''no-store''), False)"
  by code_simp

section \<open>The call sites of the policy evaluator\<close>

lemma upgrade_result:
  assumes "upgrade cfg URL reqUrl = ProxyWs orig"
  shows "\<exists>url target targetUrl.
           URL reqUrl (Some ''http://localhost'') = Some url \<and> pathname url = ''/ws'' \<and>
           map_of (searchParams url) ''url'' = Some target \<and> target \<noteq> [] \<and>
           URL target None = Some targetUrl \<and> isAllowed cfg targetUrl \<and>
           orig = origin targetUrl"
  using assms unfolding upgrade_def
  by (auto split: option.splits if_splits)

lemma selectPath_lists:
  "selectPath (cfg\<lparr>ALLOWLIST := al, BLOCKLIST := bl\<rparr>) up = selectPath cfg up"
  by (simp add: selectPath_def)

text \<open>
  C5 (as the code has it). \<open>isAllowed\<close> stands before the fetch of the \<open>/proxy\<close> target and
  before the tunnel of a WebSocket upgrade: a fetch is issued, and a tunnel opened, only
  for a target that it accepts. It does not stand before the rewriting of a Location: the
  response does not depend on the rule lists.
\<close>

theorem policy_call_sites:
  "(fst (app cfg L req) = Some call \<longrightarrow>
      (\<exists>target targetUrl. req_query_url req = Some target \<and>
          new_URL L target None = Some targetUrl \<and> isAllowed cfg targetUrl \<and>
          fc_url call = href targetUrl)) \<and>
   (upgrade cfg URL reqUrl = ProxyWs orig \<longrightarrow>
      (\<exists>url target targetUrl. URL reqUrl (Some ''http://localhost'') = Some url \<and>
          map_of (searchParams url) ''url'' = Some target \<and>
          URL target None = Some targetUrl \<and> isAllowed cfg targetUrl \<and>
          orig = origin targetUrl)) \<and>
   respond (cfg\<lparr>ALLOWLIST := al, BLOCKLIST := bl\<rparr>) L req targetUrl up res
     = respond cfg L req targetUrl up res"
proof (intro conjI impI)
  assume f: "fst (app cfg L req) = Some call"
  obtain fc out where a: "app cfg L req = (fc, out)" by (cases "app cfg L req")
  with f have "fc = Some call" by simp
  with app_result [OF a]
  show "\<exists>target targetUrl. req_query_url req = Some target \<and>
          new_URL L target None = Some targetUrl \<and> isAllowed cfg targetUrl \<and>
          fc_url call = href targetUrl"
    by auto
next
  assume "upgrade cfg URL reqUrl = ProxyWs orig"
  from upgrade_result [OF this]
  show "\<exists>url target targetUrl. URL reqUrl (Some ''http://localhost'') = Some url \<and>
          map_of (searchParams url) ''url'' = Some target \<and>
          URL target None = Some targetUrl \<and> isAllowed cfg targetUrl \<and>
          orig = origin targetUrl"
    by blast
next
  show "respond (cfg\<lparr>ALLOWLIST := al, BLOCKLIST := bl\<rparr>) L req targetUrl up res
          = respond cfg L req targetUrl up res"
    by (simp add: respond_def selectPath_lists)
qed

text \<open>
  With \<open>BLOCKLIST=evil.com\<close>: the request for \<open>http://example.com/index.html\<close> is
  fetched and its host is allowed.
\<close>

theorem policy_call_sites_witness:
  "fst (app sample_config (sample_libs None)
          \<lparr>req_method = ''GET'', req_query_url = Some ''http://example.com/index.html'',
           req_headers = [], req_chunks = []\<rparr>)
     = Some \<lparr>fc_url = ''http://example.com/index.html'', fc_method = ''GET'',
             fc_headers = [(''user-agent'', ''Mozilla/5.0 (ProxyRender/1.0)'')],
             fc_body = None\<rparr> \<and>
   isAllowed sample_config sample_target"
proof -
  let ?req = "\<lparr>req_method = ''GET'', req_query_url = Some ''http://example.com/index.html'',
                req_headers = [], req_chunks = []\<rparr>"
  let ?call = "\<lparr>fc_url = ''http://example.com/index.html'', fc_method = ''GET'',
             fc_headers = [(''user-agent'', ''Mozilla/5.0 (ProxyRender/1.0)'')],
             fc_body = None\<rparr>"
  have f: "fst (app sample_config (sample_libs None) ?req) = Some ?call" by code_simp
  have p: "new_URL (sample_libs None) ''http://example.com/index.html'' None = Some sample_target"
    by code_simp
  from policy_call_sites [of sample_config "sample_libs None" ?req ?call] f
  obtain target targetUrl where "req_query_url ?req = Some target"
    and "new_URL (sample_libs None) target None = Some targetUrl"
    and ok: "isAllowed sample_config targetUrl"
    by blast
  with p have "targetUrl = sample_target" by simp
  with ok f show ?thesis by simp
qed

text \<open>
  With \<open>BLOCKLIST=evil.com\<close>: the upstream redirects to \<open>http://evil.com/\<close>, a host that
  the policy rejects, and the client receives the ProxyURL of that target.
\<close>

theorem policy_call_sites_counterexample:
  "\<not> isAllowed sample_config
        (mkUrl ''http://evil.com/'' ''http:'' ''evil.com'' ''http://evil.com'' ''/'' []) \<and>
   absoluteUrl whatwg_sample sample_target ''http://evil.com/'' = Some ''http://evil.com/'' \<and>
   (case respond sample_config (sample_libs None) sample_request sample_target
           \<lparr>up_status = 302, up_headers = [(''location'', ''http://evil.com/'')],
            up_body = []\<rparr>
           corsHeaders of
      Inl e \<Rightarrow> None
    | Inr r \<Rightarrow> map_of (res_headers r) ''location'')
     = Some (''Location'', ''/proxy?url=http%3A%2F%2Fevil.com%2F'')"
  by code_simp

section \<open>The body guard\<close>

lemma readBody_too_large:
  assumes "MAX_BODY_MB cfg = Some mb"
      and "bodySize \<le> mb * 1024 * 1024"
      and "bodySize + int (length (concat rest)) > mb * 1024 * 1024"
  shows "readBody cfg chunks bodySize rest = None"
  using assms(2,3)
proof (induction rest arbitrary: chunks bodySize)
  case Nil
  then show ?case by simp
next
  case (Cons chunk rest)
  show ?case
  proof (cases "tooLarge cfg (bodySize + int (length chunk))")
    case True
    then show ?thesis by (simp add: Let_def)
  next
    case False
    with assms(1) have "bodySize + int (length chunk) \<le> mb * 1024 * 1024"
      by (simp add: tooLarge_def)
    moreover from Cons.prems(2)
    have "bodySize + int (length chunk) + int (length (concat rest)) > mb * 1024 * 1024"
      by simp
    ultimately have "readBody cfg (chunks @ [chunk]) (bodySize + int (length chunk)) rest = None"
      by (rule Cons.IH)
    with False show ?thesis by (simp add: Let_def)
  qed
qed

text \<open>
  C7 (as the code has it). For a request with a method other than GET and HEAD whose body
  exceeds \<open>MAX_BODY_MB\<close> megabytes (a number, not negative), no fetch is issued; and the
  answer is 413 when the request reaches the body guard: its method is not OPTIONS, its
  \<open>url\<close> parameter parses as an http or https URL, and the policy allows its host.
\<close>

theorem body_guard:
  assumes "MAX_BODY_MB cfg = Some mb" and "0 \<le> mb"
      and "req_method req \<noteq> ''GET''" and "req_method req \<noteq> ''HEAD''"
      and "int (length (concat (req_chunks req))) > mb * 1024 * 1024"
  shows "fst (app cfg L req) = None \<and>
         (req_method req \<noteq> ''OPTIONS'' \<and> req_query_url req = Some target \<and> target \<noteq> [] \<and>
          new_URL L target None = Some targetUrl \<and>
          protocol targetUrl \<in> set [''http:'', ''https:''] \<and> isAllowed cfg targetUrl
          \<longrightarrow> snd (app cfg L req) = Inr (reply 413 ''Payload too large'' corsHeaders))"
proof -
  have "readBody cfg [] 0 (req_chunks req) = None"
    using assms(1) _ _
  proof (rule readBody_too_large)
    from assms(2) show "0 \<le> mb * 1024 * 1024" by simp
    from assms(5) show "mb * 1024 * 1024 < 0 + int (length (concat (req_chunks req)))" by simp
  qed
  with assms(3,4) show ?thesis
    by (auto simp: app_def proxy_def split: option.splits)
qed

text \<open>
  \<open>MAX_BODY_MB=64\<close>: a POST for \<open>http://example.com/index.html\<close> with a body of 64
  megabytes and one byte, in one chunk.
\<close>

theorem body_guard_witness:
  "app sample_config (sample_libs None)
     \<lparr>req_method = ''POST'', req_query_url = Some ''http://example.com/index.html'',
      req_headers = [], req_chunks = [replicate (64 * 1024 * 1024 + 1) CHR ''a'']\<rparr>
     = (None, Inr (reply 413 ''Payload too large'' corsHeaders))"
proof -
  let ?req = "\<lparr>req_method = ''POST'', req_query_url = Some ''http://example.com/index.html'',
      req_headers = [], req_chunks = [replicate (64 * 1024 * 1024 + 1) CHR ''a'']\<rparr>"
  have m: "MAX_BODY_MB sample_config = Some 64" by (simp add: sample_config_def)
  have b: "int (length (concat (req_chunks ?req))) > 64 * 1024 * 1024" by simp
  have p: "new_URL (sample_libs None) ''http://example.com/index.html'' None = Some sample_target"
    by code_simp
  have s: "protocol sample_target \<in> set [''http:'', ''https:'']" by code_simp
  have a: "isAllowed sample_config sample_target" by code_simp
  have h: "req_method ?req \<noteq> ''OPTIONS'' \<and>
           req_query_url ?req = Some ''http://example.com/index.html'' \<and>
           ''http://example.com/index.html'' \<noteq> [] \<and>
           new_URL (sample_libs None) ''http://example.com/index.html'' None
             = Some sample_target \<and>
           protocol sample_target \<in> set [''http:'', ''https:''] \<and>
           isAllowed sample_config sample_target"
    using p s a by simp
  have g: "req_method ?req \<noteq> ''GET''" "req_method ?req \<noteq> ''HEAD''" by simp_all
  have z: "(0::int) \<le> 64" by simp
  from body_guard [of sample_config 64 ?req "sample_libs None"
      "''http://example.com/index.html''" sample_target, OF m z g b] h
  have "fst (app sample_config (sample_libs None) ?req) = None \<and>
        snd (app sample_config (sample_libs None) ?req)
          = Inr (reply 413 ''Payload too large'' corsHeaders)"
    by blast
  then show ?thesis by (simp add: prod_eq_iff)
qed

text \<open>
  The same body on a POST without the \<open>url\<close> parameter: the answer is 400.
\<close>

theorem body_guard_counterexample:
  "int (length (concat [replicate (64 * 1024 * 1024 + 1) CHR ''a''])) > 64 * 1024 * 1024 \<and>
   MAX_BODY_MB sample_config = Some 64 \<and>
   app sample_config (sample_libs None)
     \<lparr>req_method = ''POST'', req_query_url = None,
      req_headers = [], req_chunks = [replicate (64 * 1024 * 1024 + 1) CHR ''a'']\<rparr>
     = (None, Inr (reply 400 ''Missing ?url='' corsHeaders))"
  by (simp add: app_def proxy_def sample_config_def)

section \<open>The two paths\<close>

text \<open>
  C9. The Rewrite Path is selected exactly when the content-type of the upstream starts
  with \<open>text/html\<close> and rewriting is enabled, and the Streaming Path otherwise. On the
  Streaming Path the body of the response is the upstream's body, piped; so it is whenever
  rewriting is disabled. On the Rewrite Path the body is the rewritten document, as
  \<open>res.send\<close> writes it: none for a HEAD request, empty under the status 204, 304 or 205.
  A response there is, when the serialisation of a URL parses again.
\<close>

theorem path_selection:
  "(selectPath cfg up = RewritePath \<longleftrightarrow>
      startsWith (case headers_get (up_headers up) ''content-type'' of
                    None \<Rightarrow> [] | Some ct \<Rightarrow> ct) ''text/html'' \<and> ENABLE_REWRITE cfg) \<and>
   (selectPath cfg up \<noteq> RewritePath \<longrightarrow> selectPath cfg up = StreamingPath) \<and>
   (respond cfg L req targetUrl up res = Inr r \<longrightarrow>
      (selectPath cfg up = StreamingPath \<longrightarrow> res_body r = Piped (up_body up)) \<and>
      (selectPath cfg up = RewritePath \<longrightarrow>
         (\<exists>out. rewriteHtml L targetUrl (body_text L (up_body up)) = Inr out \<and>
                res_body r =
                  (if req_method req = ''HEAD'' then Ended
                   else if res_status r = 204 \<or> res_status r = 304 \<or> res_status r = 205
                        then Sent []
                   else Sent out))) \<and>
      (\<not> ENABLE_REWRITE cfg \<longrightarrow> res_body r = Piped (up_body up))) \<and>
   (serialisation_parses (new_URL L) \<longrightarrow> (\<exists>r. respond cfg L req targetUrl up res = Inr r))"
proof (intro conjI impI)
  assume "serialisation_parses (new_URL L)"
  then show "\<exists>r. respond cfg L req targetUrl up res = Inr r" by (rule respond_returns)
next
  show "selectPath cfg up = RewritePath \<longleftrightarrow>
      startsWith (case headers_get (up_headers up) ''content-type'' of
                    None \<Rightarrow> [] | Some ct \<Rightarrow> ct) ''text/html'' \<and> ENABLE_REWRITE cfg"
    by (simp add: selectPath_def Let_def)
next
  assume "selectPath cfg up \<noteq> RewritePath"
  then show "selectPath cfg up = StreamingPath" by (cases "selectPath cfg up") simp_all
next
  assume "respond cfg L req targetUrl up res = Inr r" and "selectPath cfg up = StreamingPath"
  with respond_parts show "res_body r = Piped (up_body up)" by blast
next
  assume "respond cfg L req targetUrl up res = Inr r" and "selectPath cfg up = RewritePath"
  with respond_parts obtain relayed out where
    o: "rewriteHtml L targetUrl (body_text L (up_body up)) = Inr out"
    and "r = res_send L req (up_status up)
               (setHeader ''content-type'' ''text/html; charset=utf-8'' relayed) out"
    by blast
  with res_send_body
  have "res_body r =
          (if req_method req = ''HEAD'' then Ended
           else if res_status r = 204 \<or> res_status r = 304 \<or> res_status r = 205
                then Sent []
           else Sent out)"
    by simp
  with o
  show "\<exists>out. rewriteHtml L targetUrl (body_text L (up_body up)) = Inr out \<and>
              res_body r =
                (if req_method req = ''HEAD'' then Ended
                 else if res_status r = 204 \<or> res_status r = 304 \<or> res_status r = 205
                      then Sent []
                 else Sent out)"
    by blast
next
  assume r: "respond cfg L req targetUrl up res = Inr r" and "\<not> ENABLE_REWRITE cfg"
  then have "selectPath cfg up = StreamingPath" by (simp add: selectPath_def Let_def)
  with r respond_parts show "res_body r = Piped (up_body up)" by blast
qed

text \<open>
  Scenario E of the specification: \<open>ENABLE_REWRITE=false\<close> and an HTML response.
\<close>

theorem path_selection_witness:
  "selectPath (sample_config\<lparr>ENABLE_REWRITE := False\<rparr>)
     \<lparr>up_status = 200, up_headers = [(''content-type'', ''text/html; charset=utf-8'')],
      up_body = ''<a href=/about>About</a>''\<rparr> = StreamingPath \<and>
   (case respond (sample_config\<lparr>ENABLE_REWRITE := False\<rparr>) (sample_libs None) sample_request sample_target
           \<lparr>up_status = 200, up_headers = [(''content-type'', ''text/html; charset=utf-8'')],
            up_body = ''<a href=/about>About</a>''\<rparr> corsHeaders of
      Inl e \<Rightarrow> None
    | Inr r \<Rightarrow> Some (res_body r)) = Some (Piped ''<a href=/about>About</a>'')"
proof -
  let ?cfg = "sample_config\<lparr>ENABLE_REWRITE := False\<rparr>"
  let ?up = "\<lparr>up_status = 200, up_headers = [(''content-type'', ''text/html; charset=utf-8'')],
      up_body = ''<a href=/about>About</a>''\<rparr>"
  let ?L = "sample_libs None"
  have "serialisation_parses (new_URL ?L)"
    by (simp add: sample_libs_def whatwg_sample_reparses)
  with path_selection [of ?cfg ?up ?L sample_request sample_target corsHeaders]
  obtain r where r: "respond ?cfg ?L sample_request sample_target ?up corsHeaders = Inr r"
    by blast
  have off: "\<not> ENABLE_REWRITE ?cfg" by simp
  from path_selection [of ?cfg ?up ?L sample_request sample_target corsHeaders r] r off
  have "selectPath ?cfg ?up \<noteq> RewritePath" and "res_body r = Piped (up_body ?up)"
    by blast+
  moreover from path_selection [of ?cfg ?up ?L sample_request sample_target corsHeaders r]
    \<open>selectPath ?cfg ?up \<noteq> RewritePath\<close>
  have "selectPath ?cfg ?up = StreamingPath" by blast
  ultimately show ?thesis using r by simp
qed

section \<open>The scheme of a WebSocket target\<close>

lemma isAllowed_protocol: "isAllowed cfg (u\<lparr>protocol := s\<rparr>) = isAllowed cfg u"
  by (simp add: isAllowed_def)

text \<open>
  C10. The upgrade handler asks that the request is for \<open>/ws\<close>, that its \<open>url\<close> parameter
  parses, and that \<open>isAllowed\<close> accepts the host; then it tunnels to the origin of the
  target. It never reads the scheme: its result is the same when the scheme of every URL
  is replaced by another. The \<open>/proxy\<close> handler answers 400 for a target whose scheme is
  neither \<open>http:\<close> nor \<open>https:\<close>.
\<close>

theorem upgrade_ignores_scheme:
  "(URL reqUrl (Some ''http://localhost'') = Some url \<and> pathname url = ''/ws'' \<and>
    map_of (searchParams url) ''url'' = Some target \<and> target \<noteq> [] \<and>
    URL target None = Some targetUrl \<and> isAllowed cfg targetUrl
      \<longrightarrow> upgrade cfg URL reqUrl = ProxyWs (origin targetUrl)) \<and>
   upgrade cfg (\<lambda>input base. map_option (\<lambda>u. u\<lparr>protocol := scheme\<rparr>) (URL input base)) reqUrl
     = upgrade cfg URL reqUrl \<and>
   (req_method req \<noteq> ''OPTIONS'' \<and> req_query_url req = Some target' \<and> target' \<noteq> [] \<and>
    new_URL L target' None = Some targetUrl' \<and>
    protocol targetUrl' \<notin> set [''http:'', ''https:'']
      \<longrightarrow> app cfg L req
            = (None, Inr (reply 400 ''Only http/https are supported'' corsHeaders)))"
proof (intro conjI impI)
  assume "URL reqUrl (Some ''http://localhost'') = Some url \<and> pathname url = ''/ws'' \<and>
    map_of (searchParams url) ''url'' = Some target \<and> target \<noteq> [] \<and>
    URL target None = Some targetUrl \<and> isAllowed cfg targetUrl"
  then show "upgrade cfg URL reqUrl = ProxyWs (origin targetUrl)"
    by (simp add: upgrade_def)
next
  show "upgrade cfg (\<lambda>input base. map_option (\<lambda>u. u\<lparr>protocol := scheme\<rparr>) (URL input base)) reqUrl
          = upgrade cfg URL reqUrl"
    by (simp add: upgrade_def isAllowed_protocol split: option.splits)
next
  assume "req_method req \<noteq> ''OPTIONS'' \<and> req_query_url req = Some target' \<and> target' \<noteq> [] \<and>
    new_URL L target' None = Some targetUrl' \<and>
    protocol targetUrl' \<notin> set [''http:'', ''https:'']"
  then show "app cfg L req
               = (None, Inr (reply 400 ''Only http/https are supported'' corsHeaders))"
    by (simp add: app_def proxy_def)
qed

text \<open>
  The target \<open>ftp://files.example.com/pub\<close>, whose host no rule blocks: the bridge
  tunnels to \<open>ftp://files.example.com\<close>, and \<open>/proxy\<close> answers 400.
\<close>

theorem upgrade_ignores_scheme_witness:
  "upgrade sample_config whatwg_sample ''/ws?url=ftp%3A%2F%2Ffiles.example.com%2Fpub''
     = ProxyWs ''ftp://files.example.com'' \<and>
   app sample_config (sample_libs None)
     \<lparr>req_method = ''GET'', req_query_url = Some ''ftp://files.example.com/pub'',
      req_headers = [], req_chunks = []\<rparr>
     = (None, Inr (reply 400 ''Only http/https are supported'' corsHeaders))"
proof -
  let ?reqUrl = "''/ws?url=ftp%3A%2F%2Ffiles.example.com%2Fpub''"
  let ?url = "mkUrl ''http://localhost/ws?url=ftp%3A%2F%2Ffiles.example.com%2Fpub''
                ''http:'' ''localhost'' ''http://localhost'' ''/ws''
                [(''url'', ''ftp://files.example.com/pub'')]"
  let ?t = "mkUrl ''ftp://files.example.com/pub'' ''ftp:'' ''files.example.com''
              ''ftp://files.example.com'' ''/pub'' []"
  let ?req = "\<lparr>req_method = ''GET'', req_query_url = Some ''ftp://files.example.com/pub'',
      req_headers = [], req_chunks = []\<rparr>"
  have 1: "whatwg_sample ?reqUrl (Some ''http://localhost'') = Some ?url \<and>
           pathname ?url = ''/ws'' \<and>
           map_of (searchParams ?url) ''url'' = Some ''ftp://files.example.com/pub'' \<and>
           ''ftp://files.example.com/pub'' \<noteq> [] \<and>
           whatwg_sample ''ftp://files.example.com/pub'' None = Some ?t \<and>
           isAllowed sample_config ?t"
    by code_simp
  have 2: "req_method ?req \<noteq> ''OPTIONS'' \<and>
           req_query_url ?req = Some ''ftp://files.example.com/pub'' \<and>
           ''ftp://files.example.com/pub'' \<noteq> [] \<and>
           new_URL (sample_libs None) ''ftp://files.example.com/pub'' None = Some ?t \<and>
           protocol ?t \<notin> set [''http:'', ''https:'']"
    by code_simp
  have o: "origin ?t = ''ftp://files.example.com''" by (simp add: mkUrl_def)
  from upgrade_ignores_scheme [of whatwg_sample ?reqUrl ?url "''ftp://files.example.com/pub''"
      ?t sample_config _ ?req "''ftp://files.example.com/pub''" "sample_libs None" ?t] 1 2
  have "upgrade sample_config whatwg_sample ?reqUrl = ProxyWs (origin ?t) \<and>
        app sample_config (sample_libs None) ?req
          = (None, Inr (reply 400 ''Only http/https are supported'' corsHeaders))"
    by blast
  then show ?thesis unfolding o .
qed

section \<open>The rewriting of attributes\<close>

lemma attr_kept_refl: "attr_kept URL t a a"
  by (simp add: attr_kept_def)

lemma attrs_kept_refl: "list_all2 (attr_kept URL t) attrs attrs"
  by (simp add: list_all2_refl attr_kept_refl)

lemma attr_kept_trans: "attr_kept URL t a b \<Longrightarrow> attr_kept URL t b c \<Longrightarrow> attr_kept URL t a c"
  by (auto simp: attr_kept_def)

lemma attrs_kept_update:
  assumes "map_of attrs name = Some v" and "absoluteUrl URL t v \<noteq> None"
  shows "list_all2 (attr_kept URL t) attrs (AList.update name p attrs)"
  using assms(1)
proof (induction attrs)
  case Nil
  then show ?case by simp
next
  case (Cons a attrs)
  obtain k x where a: "a = (k, x)" by (cases a)
  show ?case
  proof (cases "k = name")
    case True
    with Cons.prems a have "x = v" by simp
    with assms(2) have "attr_kept URL t (k, x) (name, p)"
      using True by (auto simp: attr_kept_def)
    with True a show ?thesis
      by (simp add: attrs_kept_refl)
  next
    case False
    with Cons a show ?thesis by (simp add: attr_kept_refl)
  qed
qed

lemma rewriteAttr_kept:
  assumes "rewriteAttr URL t name attrs = Inr attrs'"
  shows "list_all2 (attr_kept URL t) attrs attrs'"
proof (cases "map_of attrs name")
  case None
  with assms show ?thesis by (simp add: rewriteAttr_def attrs_kept_refl)
next
  case (Some v)
  show ?thesis
  proof (cases "absoluteUrl URL t v")
    case None
    with Some assms show ?thesis by (simp add: rewriteAttr_def attrs_kept_refl)
  next
    case (Some absUrl)
    with \<open>map_of attrs name = Some v\<close> assms
    have "attrs' = attrs \<or> (\<exists>p. attrs' = AList.update name p attrs)"
      by (auto simp: rewriteAttr_def then_do_Inr split: if_splits)
    moreover have "list_all2 (attr_kept URL t) attrs (AList.update name p attrs)" for p
      using \<open>map_of attrs name = Some v\<close> Some by (intro attrs_kept_update) auto
    ultimately show ?thesis by (auto simp: attrs_kept_refl)
  qed
qed

lemma rewriteResourceAttr_kept:
  assumes "rewriteResourceAttr URL t name attrs = Inr attrs'"
  shows "list_all2 (attr_kept URL t) attrs attrs'"
  using assms rewriteAttr_kept [of URL t name attrs attrs']
  by (auto simp: rewriteResourceAttr_def attrs_kept_refl split: option.splits if_splits)

lemma each_kept:
  "\<forall>attrs attrs'. f attrs = Inr attrs' \<longrightarrow> list_all2 (attr_kept URL t) attrs attrs' \<Longrightarrow>
     each sel f d = Inr d' \<Longrightarrow> unresolved_kept URL t d d'"
  "\<forall>attrs attrs'. f attrs = Inr attrs' \<longrightarrow> list_all2 (attr_kept URL t) attrs attrs' \<Longrightarrow>
     each_list sel f ds = Inr ds' \<Longrightarrow> list_all2 (unresolved_kept URL t) ds ds'"
proof (induction sel f d and sel f ds arbitrary: d' and ds' rule: each_each_list.induct)
  case (1 sel f s)
  then show ?case by auto
next
  case (2 sel f tag attrs kids)
  from "2.prems"(2) obtain attrs' kids' where
    a: "(if sel tag attrs then f attrs else Inr attrs) = Inr attrs'"
    and k: "each_list sel f kids = Inr kids'"
    and d': "d' = Element tag attrs' kids'"
    by (auto simp: then_do_Inr)
  from a "2.prems"(1) have "list_all2 (attr_kept URL t) attrs attrs'"
    by (auto simp: attrs_kept_refl split: if_splits)
  moreover from k have "list_all2 (unresolved_kept URL t) kids kids'"
    using "2.IH" a "2.prems"(1) by blast
  ultimately show ?case by (simp add: d')
next
  case (3 sel f)
  then show ?case by simp
next
  case (4 sel f n ns)
  from "4.prems"(2) obtain n' ns' where
    n: "each sel f n = Inr n'" and ns: "each_list sel f ns = Inr ns'" and "ds' = n' # ns'"
    by (auto simp: then_do_Inr)
  with "4.IH" "4.prems"(1) show ?case by auto
qed

lemma unresolved_kept_trans:
  "unresolved_kept URL t a b \<Longrightarrow> unresolved_kept URL t b c \<Longrightarrow> unresolved_kept URL t a c"
proof (induction a arbitrary: b c)
  case (Text x)
  then show ?case by (cases b; cases c) auto
next
  case (Element tag attrs kids)
  from Element.prems(1) obtain attrs1 kids1 where b: "b = Element tag attrs1 kids1"
    and a1: "list_all2 (attr_kept URL t) attrs attrs1"
    and k1: "list_all2 (unresolved_kept URL t) kids kids1"
    by (cases b) auto
  from Element.prems(2) b obtain attrs2 kids2 where c: "c = Element tag attrs2 kids2"
    and a2: "list_all2 (attr_kept URL t) attrs1 attrs2"
    and k2: "list_all2 (unresolved_kept URL t) kids1 kids2"
    by (cases c) auto
  from a1 a2 have "list_all2 (attr_kept URL t) attrs attrs2"
    by (rule list_all2_trans [rotated]) (rule attr_kept_trans)
  moreover have "list_all2 (unresolved_kept URL t) kids kids2"
  proof (rule list_all2_all_nthI)
    from k1 k2 show "length kids = length kids2" by (simp add: list_all2_lengthD)
  next
    fix i assume i: "i < length kids"
    then have "kids ! i \<in> set kids" by simp
    moreover from k1 i have "unresolved_kept URL t (kids ! i) (kids1 ! i)"
      by (rule list_all2_nthD)
    moreover from k2 k1 i have "unresolved_kept URL t (kids1 ! i) (kids2 ! i)"
      by (simp add: list_all2_nthD list_all2_lengthD)
    ultimately show "unresolved_kept URL t (kids ! i) (kids2 ! i)"
      by (rule Element.IH)
  qed
  ultimately show ?case by (simp add: c)
qed

lemma rewriteDocument_kept:
  assumes "rewriteDocument URL t doc = Inr doc'"
  shows "unresolved_kept URL t doc doc'"
proof -
  from assms obtain links srcs resources where
    1: "each (hasAttr ''a'' ''href'') (rewriteAttr URL t ''href'') doc = Inr links"
    and 2: "each isResource (rewriteResourceAttr URL t ''src'') links = Inr srcs"
    and 3: "each isResource (rewriteResourceAttr URL t ''href'') srcs = Inr resources"
    and 4: "each (hasAttr ''form'' ''action'') (rewriteAttr URL t ''action'') resources = Inr doc'"
    unfolding rewriteDocument_def then_do_Inr by blast
  have "unresolved_kept URL t doc links"
    using 1 by (rule each_kept(1) [rotated]) (simp add: rewriteAttr_kept)
  moreover have "unresolved_kept URL t links srcs"
    using 2 by (rule each_kept(1) [rotated]) (simp add: rewriteResourceAttr_kept)
  moreover have "unresolved_kept URL t srcs resources"
    using 3 by (rule each_kept(1) [rotated]) (simp add: rewriteResourceAttr_kept)
  moreover have "unresolved_kept URL t resources doc'"
    using 4 by (rule each_kept(1) [rotated]) (simp add: rewriteAttr_kept)
  ultimately show ?thesis by (blast intro: unresolved_kept_trans)
qed

text \<open>
  C6 (as the code has it). An attribute whose value does not resolve against the target
  (\<open>absoluteUrl\<close> gives null) is left as it was: by the callback on one element, by the
  four passes over the document, and so in the text that the Rewrite Path sends, which is
  the serialisation of the rewritten document with the script appended to its head. The
  passes end without an exception, when the serialisation of a URL parses again.
\<close>

theorem unresolved_attributes_kept:
  \<open>(rewriteAttr URL targetUrl name attrs = Inr attrs' \<and> map_of attrs name = Some v \<and>
    absoluteUrl URL targetUrl v = None \<longrightarrow> attrs' = attrs) \<and>
   (rewriteDocument URL targetUrl doc = Inr doc' \<longrightarrow> unresolved_kept URL targetUrl doc doc') \<and>
   (rewriteHtml L targetUrl htmlText = Inr out \<longrightarrow>
      (\<exists>rewritten.
         unresolved_kept (new_URL L) targetUrl
           (prepend ''head'' (cheerio_markup L (''<base href="'' @ href targetUrl @ ''">''))
              (cheerio_load L htmlText))
           rewritten \<and>
         out = cheerio_html L (append_to ''head'' (cheerio_markup L navScript) rewritten))) \<and>
   (serialisation_parses URL \<longrightarrow> (\<exists>doc'. rewriteDocument URL targetUrl doc = Inr doc'))\<close>
proof (intro conjI impI)
  assume "serialisation_parses URL"
  then show "\<exists>doc'. rewriteDocument URL targetUrl doc = Inr doc'"
    by (rule rewriteDocument_returns)
next
  assume "rewriteAttr URL targetUrl name attrs = Inr attrs' \<and> map_of attrs name = Some v \<and>
    absoluteUrl URL targetUrl v = None"
  then show "attrs' = attrs" by (auto simp: rewriteAttr_def)
next
  assume "rewriteDocument URL targetUrl doc = Inr doc'"
  then show "unresolved_kept URL targetUrl doc doc'" by (rule rewriteDocument_kept)
next
  assume "rewriteHtml L targetUrl htmlText = Inr out"
  then obtain rewritten where
    r: \<open>rewriteDocument (new_URL L) targetUrl
          (prepend ''head'' (cheerio_markup L (''<base href="'' @ href targetUrl @ ''">''))
             (cheerio_load L htmlText)) = Inr rewritten\<close>
    and o: "out = cheerio_html L (append_to ''head'' (cheerio_markup L navScript) rewritten)"
    unfolding rewriteHtml_def Let_def then_do_Inr by auto
  from rewriteDocument_kept [OF r] o
  show \<open>\<exists>rewritten.
         unresolved_kept (new_URL L) targetUrl
           (prepend ''head'' (cheerio_markup L (''<base href="'' @ href targetUrl @ ''">''))
              (cheerio_load L htmlText))
           rewritten \<and>
         out = cheerio_html L (append_to ''head'' (cheerio_markup L navScript) rewritten)\<close>
    by blast
qed

text \<open>
  An anchor whose \<open>href\<close> is \<open>http://\<close>, which has no host and does not resolve: the
  document comes out of the four passes as it went in.
\<close>

theorem unresolved_attributes_kept_witness:
  "absoluteUrl whatwg_sample sample_target ''http://'' = None \<and>
   rewriteDocument whatwg_sample sample_target
     (Element ''a'' [(''href'', ''http://'')] [Text ''Home''])
     = Inr (Element ''a'' [(''href'', ''http://'')] [Text ''Home''])"
proof -
  let ?doc = "Element ''a'' [(''href'', ''http://'')] [Text ''Home'']"
  have n: "absoluteUrl whatwg_sample sample_target ''http://'' = None" by code_simp
  from unresolved_attributes_kept [of whatwg_sample sample_target _ _ _ _ ?doc]
    whatwg_sample_reparses
  obtain doc' where d: "rewriteDocument whatwg_sample sample_target ?doc = Inr doc'"
    by blast
  with unresolved_attributes_kept [of whatwg_sample sample_target _ _ _ _ ?doc doc']
  have "unresolved_kept whatwg_sample sample_target ?doc doc'" by blast
  with n have "doc' = ?doc"
    by (cases doc') (auto simp: list_all2_Cons1 attr_kept_def elim!: unresolved_kept.elims)
  with n d show ?thesis by simp
qed

text \<open>
  An anchor whose \<open>href\<close> is \<open>javascript:void(0)\<close>: the value resolves, to itself, and
  is rewritten to a ProxyURL.
\<close>

theorem unresolved_attributes_kept_counterexample:
  "absoluteUrl whatwg_sample sample_target ''javascript:void(0)'' = Some ''javascript:void(0)'' \<and>
   rewriteDocument whatwg_sample sample_target
     (Element ''a'' [(''href'', ''javascript:void(0)'')] [Text ''Home''])
     = Inr (Element ''a'' [(''href'', ''/proxy?url=javascript%3Avoid(0)'')] [Text ''Home''])"
  by code_simp

end
